theory Spec2Isabelle
  imports Main
begin

section \<open>continuous\_stock.py: data model\<close>

text \<open>
  The program polls a quote endpoint for a fixed list of companies, keeps the most
  recent readings in a \<^verbatim>\<open>deque(maxlen=num_updates)\<close> and rewrites a CSV file after
  every round. Everything outside the process (the HTTP fetch, the wall clock, the
  file system, the logger, the inter-round sleep) is an explicit part of the state;
  the answers of the outside world are given by an environment of oracles.
\<close>

subsection \<open>Exceptions\<close>

text \<open>
  A subscript key is a string or an integer. The exceptions the program can meet are
  all subclasses of Python's \<^verbatim>\<open>Exception\<close>: \<^verbatim>\<open>KeyError\<close> and \<^verbatim>\<open>IndexError\<close> (both
  subclasses of \<^verbatim>\<open>LookupError\<close>), \<^verbatim>\<open>TypeError\<close>, \<^verbatim>\<open>OSError\<close> from the file system, and
  whatever the fetch collaborator raises (carried with its message).
\<close>

datatype key = SKey string | IKey int

datatype error = KeyError key | IndexError | TypeError | OSError string | FetchError string

fun is_LookupError :: "error \<Rightarrow> bool" where
  "is_LookupError (KeyError _) = True"
| "is_LookupError IndexError = True"
| "is_LookupError _ = False"

subsection \<open>JSON payloads and subscripting\<close>

text \<open>
  The parsed payload \<^verbatim>\<open>result.data\<close>. Numbers are kept abstract (type \<open>'n\<close>): the program
  never computes with them. An object is the list of its items.
\<close>

datatype 'n json =
    JNull
  | JBool bool
  | JNum 'n
  | JStr string
  | JArr "'n json list"
  | JObj "(string \<times> 'n json) list"

text \<open>Python's \<^verbatim>\<open>xs[i]\<close> on a sequence: a negative index counts from the end.\<close>

definition seq_index :: "'a list \<Rightarrow> int \<Rightarrow> error + 'a" where
  "seq_index xs i =
     (if 0 \<le> i
      then (if i < int (length xs) then Inr (xs ! nat i) else Inl IndexError)
      else (if - int (length xs) \<le> i then Inr (xs ! nat (int (length xs) + i))
            else Inl IndexError))"

text \<open>
  \<^verbatim>\<open>value[k]\<close>: a dict raises \<^verbatim>\<open>KeyError\<close> on a missing key (its keys are strings, so an
  integer key is always missing), a list and a string take integer indices only, and
  \<^verbatim>\<open>None\<close>, booleans and numbers are not subscriptable.
\<close>

fun getitem :: "'n json \<Rightarrow> key \<Rightarrow> error + 'n json" where
  "getitem (JObj kvs) (SKey k) =
     (case map_of kvs k of None \<Rightarrow> Inl (KeyError (SKey k)) | Some v \<Rightarrow> Inr v)"
| "getitem (JObj kvs) (IKey i) = Inl (KeyError (IKey i))"
| "getitem (JArr xs) (IKey i) = seq_index xs i"
| "getitem (JArr xs) (SKey k) = Inl TypeError"
| "getitem (JStr s) (IKey i) =
     (case seq_index s i of Inl e \<Rightarrow> Inl e | Inr c \<Rightarrow> Inr (JStr [c]))"
| "getitem (JStr s) (SKey k) = Inl TypeError"
| "getitem JNull k = Inl TypeError"
| "getitem (JBool b) k = Inl TypeError"
| "getitem (JNum n) k = Inl TypeError"

text \<open>A chain of subscripts \<^verbatim>\<open>v[k1][k2]...\<close>, stopping at the first that raises.\<close>

fun getpath :: "'n json \<Rightarrow> key list \<Rightarrow> error + 'n json" where
  "getpath v [] = Inr v"
| "getpath v (k # ks) = (case getitem v k of Inl e \<Rightarrow> Inl e | Inr v' \<Rightarrow> getpath v' ks)"

subsection \<open>Readings and the bounded deque\<close>

text \<open>The dict \<^verbatim>\<open>new_record\<close>: its four keys, in insertion order.\<close>

record 'n quote_record =
  Company :: string
  Ticker :: string
  Time :: string
  Price :: "'n json"

text \<open>
  \<^verbatim>\<open>collections.deque(maxlen=n)\<close>: \<^verbatim>\<open>append\<close> adds on the right and, when the deque is then
  longer than \<^verbatim>\<open>maxlen\<close>, drops one item on the left.
\<close>

record 'a deque =
  maxlen :: nat
  items :: "'a list"

definition new_deque :: "nat \<Rightarrow> 'a deque" where
  "new_deque n = \<lparr>maxlen = n, items = []\<rparr>"

definition deque_append :: "'a deque \<Rightarrow> 'a \<Rightarrow> 'a deque" where
  "deque_append d x =
     (let ys = items d @ [x]
      in d\<lparr>items := (if maxlen d < length ys then tl ys else ys)\<rparr>)"

subsection \<open>State and environment\<close>

datatype 'n log_entry =
    Info string
  | InfoResult "'n json"
  | Error error

text \<open>
  The state: the snapshot file at \<^verbatim>\<open>fp\<close> (\<open>None\<close> when it does not exist), the URLs
  requested so far, the number of clock reads and of file writes attempted, the sleeps
  taken, the log, and the local variable \<^verbatim>\<open>records_deque\<close>.
\<close>

record 'n state =
  snapshot :: "string option"
  requests :: "string list"
  clock_reads :: nat
  writes :: nat
  sleeps :: "nat list"
  logged :: "'n log_entry list"
  records_deque :: "'n quote_record deque"

text \<open>
  The environment: what the \<open>k\<close>-th call of \<^verbatim>\<open>fetch_from_url\<close> answers for a URL, what
  the \<open>k\<close>-th \<^verbatim>\<open>datetime.now().strftime(...)\<close> returns, whether and how the \<open>k\<close>-th write
  of the file fails, the text of the path \<^verbatim>\<open>fp\<close>, and the text pandas writes for a cell of the
  Price column (it depends on the whole column, whose dtype pandas infers).
\<close>

text \<open>
  A write of the file can fail in two ways. It fails when the file is opened, and then
  nothing has been touched. Or it fails later: \<^verbatim>\<open>mode="w"\<close> has by then truncated the file
  (or created it), and some prefix of the text, possibly empty, has reached it.
\<close>

datatype io_fault = AtOpen error | AtWrite nat error

fun fault_error :: "io_fault \<Rightarrow> error" where
  "fault_error (AtOpen e) = e"
| "fault_error (AtWrite k e) = e"

text \<open>The file a failed write of \<open>text\<close> leaves behind, given the file before.\<close>

fun fault_leaves :: "io_fault \<Rightarrow> string \<Rightarrow> string option \<Rightarrow> string option" where
  "fault_leaves (AtOpen e) text before = before"
| "fault_leaves (AtWrite k e) text before = Some (take k text)"

record 'n env =
  fetch_from_url :: "nat \<Rightarrow> string \<Rightarrow> error + 'n json"
  now :: "nat \<Rightarrow> string"
  to_csv_fault :: "nat \<Rightarrow> io_fault option"
  fp :: string
  str_price :: "'n json list \<Rightarrow> 'n json \<Rightarrow> string"

type_synonym ('n, 'a) result = "(error \<times> 'n state) + ('a \<times> 'n state)"

definition logger_info :: "string \<Rightarrow> 'n state \<Rightarrow> 'n state" where
  "logger_info msg s = s\<lparr>logged := logged s @ [Info msg]\<rparr>"

definition logger_info_result :: "'n json \<Rightarrow> 'n state \<Rightarrow> 'n state" where
  "logger_info_result r s = s\<lparr>logged := logged s @ [InfoResult r]\<rparr>"

definition logger_error :: "error \<Rightarrow> 'n state \<Rightarrow> 'n state" where
  "logger_error e s = s\<lparr>logged := logged s @ [Error e]\<rparr>"

definition asyncio_sleep :: "nat \<Rightarrow> 'n state \<Rightarrow> 'n state" where
  "asyncio_sleep secs s = s\<lparr>sleeps := sleeps s @ [secs]\<rparr>"

text \<open>\<^verbatim>\<open>str(n)\<close> for a non-negative integer.\<close>

fun str_nat :: "nat \<Rightarrow> string" where
  "str_nat n =
     (if n < 10 then [''0123456789'' ! n]
      else str_nat (n div 10) @ [''0123456789'' ! (n mod 10)])"

declare str_nat.simps [simp del]

section \<open>The functions of continuous\_stock.py\<close>

subsection \<open>lookup\_ticker\<close>

definition stocks_dictionary :: "(string \<times> string) list" where
  "stocks_dictionary =
     [(''Cadence Design Systems'', ''CDNS''),
      (''Synopys'', ''SNPS''),
      (''Tractor Supply Company'', ''TSCO''),
      (''Lululemon Ahtletica Inc.'', ''LULU''),
      (''Arch Capital Group Ltd.'', ''ACGL''),
      (''Costco Wholesale Corporation'', ''COST''),
      (''Brown & Brown Inc.'', ''BRO''),
      (''Thermo Fisher Scientific Inc.'', ''TMO''),
      (''CDW Corporation'', ''CDW''),
      (''Intuit Inc.'', ''INTU'')]"

definition lookup_ticker :: "string \<Rightarrow> error + string" where
  "lookup_ticker company =
     (case map_of stocks_dictionary company of
        None \<Rightarrow> Inl (KeyError (SKey company))
      | Some ticker \<Rightarrow> Inr ticker)"

subsection \<open>get\_stock\_price and get\_daily\_high\<close>

definition stock_api_url :: "string \<Rightarrow> string" where
  "stock_api_url ticker = ''https://query1.finance.yahoo.com/v7/finance/options/'' @ ticker"

text \<open>One call of \<^verbatim>\<open>fetch_from_url(url, "json")\<close>: the request is recorded, then the
  environment answers.\<close>

definition fetch :: "'n env \<Rightarrow> string \<Rightarrow> 'n state \<Rightarrow> ('n, 'n json) result" where
  "fetch env url s =
     (let s' = s\<lparr>requests := requests s @ [url]\<rparr>
      in case fetch_from_url env (length (requests s)) url of
           Inl e \<Rightarrow> Inl (e, s')
         | Inr d \<Rightarrow> Inr (d, s'))"

definition quote_field :: "string \<Rightarrow> 'n json \<Rightarrow> error + 'n json" where
  "quote_field name d =
     getpath d [SKey ''optionChain'', SKey ''result'', IKey 0, SKey ''quote'', SKey name]"

definition get_stock_price :: "'n env \<Rightarrow> string \<Rightarrow> 'n state \<Rightarrow> ('n, 'n json) result" where
  "get_stock_price env ticker s =
     (let s1 = logger_info ''Calling get_stock_price for {ticker}'' s;
          url = stock_api_url ticker;
          s2 = logger_info (''Calling fetch_from_url: '' @ url) s1
      in case fetch env url s2 of
           Inl x \<Rightarrow> Inl x
         | Inr (d, s3) \<Rightarrow>
             (let s4 = logger_info_result d s3
              in case quote_field ''regularMarketPrice'' d of
                   Inl e \<Rightarrow> Inl (e, s4)
                 | Inr price \<Rightarrow> Inr (price, s4)))"

definition get_daily_high :: "'n env \<Rightarrow> string \<Rightarrow> 'n state \<Rightarrow> ('n, 'n json) result" where
  "get_daily_high env ticker s =
     (let s1 = logger_info ''Calling get_daily_high for {ticker}'' s;
          url = stock_api_url ticker;
          s2 = logger_info (''Calling fetch_from_url: '' @ url) s1
      in case fetch env url s2 of
           Inl x \<Rightarrow> Inl x
         | Inr (d, s3) \<Rightarrow>
             (let s4 = logger_info_result d s3
              in case quote_field ''regularMarketDayHigh'' d of
                   Inl e \<Rightarrow> Inl (e, s4)
                 | Inr daily_high \<Rightarrow> Inr (daily_high, s4)))"

subsection \<open>DataFrame and to\_csv\<close>

text \<open>
  A frame is its column labels and its rows. \<^verbatim>\<open>pd.DataFrame(columns=...)\<close> has the given
  labels and no row; \<^verbatim>\<open>pd.DataFrame(records)\<close> takes its labels from the keys of the
  records, so a frame made from no record has no column.
\<close>

record 'n frame =
  columns :: "string list"
  frame_rows :: "'n quote_record list"

definition DataFrame_columns :: "string list \<Rightarrow> 'n frame" where
  "DataFrame_columns cols = \<lparr>columns = cols, frame_rows = []\<rparr>"

definition DataFrame_records :: "'n quote_record list \<Rightarrow> 'n frame" where
  "DataFrame_records recs =
     \<lparr>columns = (if recs = [] then [] else [''Company'', ''Ticker'', ''Time'', ''Price'']),
      frame_rows = recs\<rparr>"

text \<open>
  The CSV writer with minimal quoting: a field holding the delimiter, the quote
  character or a line break is quoted, its quotes doubled. Lines end in a line feed.
\<close>

definition csv_special :: "char \<Rightarrow> bool" where
  "csv_special c = (c = CHR '','' \<or> c = CHR 0x22 \<or> c = CHR 0x0A \<or> c = CHR 0x0D)"

definition csv_field :: "string \<Rightarrow> string" where
  "csv_field f =
     (if list_ex csv_special f
      then [CHR 0x22] @ concat (map (\<lambda>c. if c = CHR 0x22 then [c, c] else [c]) f) @ [CHR 0x22]
      else f)"

fun join :: "string \<Rightarrow> string list \<Rightarrow> string" where
  "join sep [] = []"
| "join sep [x] = x"
| "join sep (x # y # zs) = x @ sep @ join sep (y # zs)"

definition csv_line :: "string list \<Rightarrow> string" where
  "csv_line cells = join '','' (map csv_field cells) @ [CHR 0x0A]"

definition csv_row :: "('n json list \<Rightarrow> 'n json \<Rightarrow> string) \<Rightarrow> 'n json list \<Rightarrow>
    'n quote_record \<Rightarrow> string" where
  "csv_row fmt col r = csv_line [Company r, Ticker r, Time r, fmt col (Price r)]"

definition to_csv_text :: "('n json list \<Rightarrow> 'n json \<Rightarrow> string) \<Rightarrow> 'n frame \<Rightarrow> string" where
  "to_csv_text fmt df =
     csv_line (columns df) @
     concat (map (csv_row fmt (map Price (frame_rows df))) (frame_rows df))"

text \<open>\<^verbatim>\<open>df.to_csv(fp, index=False, mode="w")\<close>: the file is replaced by the text of the
  frame, unless the write fails. A failing write raises; it leaves the file as it was
  when it failed on opening it, and truncated, holding a prefix of the text, when it
  failed later.\<close>

definition to_csv :: "'n env \<Rightarrow> 'n frame \<Rightarrow> 'n state \<Rightarrow> ('n, unit) result" where
  "to_csv env df s =
     (let s' = s\<lparr>writes := Suc (writes s)\<rparr>;
          text = to_csv_text (str_price env) df
      in case to_csv_fault env (writes s) of
           Some f \<Rightarrow> Inl (fault_error f, s'\<lparr>snapshot := fault_leaves f text (snapshot s)\<rparr>)
         | None \<Rightarrow> Inr ((), s'\<lparr>snapshot := Some text\<rparr>))"

subsection \<open>init\_csv\_file\<close>

definition init_csv_file :: "'n env \<Rightarrow> 'n state \<Rightarrow> ('n, unit) result" where
  "init_csv_file env s =
     to_csv env (DataFrame_columns [''Company'', ''Ticker'', ''Time'', ''Stock_Price'']) s"

subsection \<open>update\_csv\_stock\<close>

definition companies :: "string list" where
  "companies =
     [''Cadence Design Systems'',
      ''Synopys'',
      ''Tractor Supply Company'',
      ''Lululemon Ahtletica Inc.'',
      ''Arch Capital Group Ltd.'',
      ''Costco Wholesale Corporation'',
      ''Brown & Brown Inc.'',
      ''Thermo Fisher Scientific Inc.'',
      ''CDW Corporation'',
      ''Intuit Inc.'']"

definition update_interval :: nat where
  "update_interval = 60"

definition total_runtime :: nat where
  "total_runtime = 15 * 60"

definition num_updates :: nat where
  "num_updates = 100"

text \<open>The body of the inner loop, lines 128 to 138, for one company.\<close>

definition company_step :: "'n env \<Rightarrow> string \<Rightarrow> 'n state \<Rightarrow> ('n, unit) result" where
  "company_step env company s =
     (case lookup_ticker company of
        Inl e \<Rightarrow> Inl (e, s)
      | Inr ticker \<Rightarrow>
          (case get_stock_price env ticker s of
             Inl x \<Rightarrow> Inl x
           | Inr (new_price, s1) \<Rightarrow>
               (case get_daily_high env ticker s1 of
                  Inl x \<Rightarrow> Inl x
                | Inr (daily_high, s2) \<Rightarrow>
                    (let time_now = now env (clock_reads s2);
                         s3 = s2\<lparr>clock_reads := Suc (clock_reads s2)\<rparr>;
                         new_record = \<lparr>Company = company, Ticker = ticker,
                                       Time = time_now, Price = new_price\<rparr>
                     in Inr ((), s3\<lparr>records_deque :=
                                       deque_append (records_deque s3) new_record\<rparr>)))))"

text \<open>\<^verbatim>\<open>for company in companies\<close>: the first exception ends the loop.\<close>

fun for_companies :: "'n env \<Rightarrow> string list \<Rightarrow> 'n state \<Rightarrow> ('n, unit) result" where
  "for_companies env [] s = Inr ((), s)"
| "for_companies env (company # rest) s =
     (case company_step env company s of
        Inl x \<Rightarrow> Inl x
      | Inr (u, s') \<Rightarrow> for_companies env rest s')"

text \<open>One pass of the outer loop, lines 127 to 148.\<close>

definition polling_round :: "'n env \<Rightarrow> string list \<Rightarrow> nat \<Rightarrow> 'n state \<Rightarrow> ('n, unit) result" where
  "polling_round env cs interval s =
     (case for_companies env cs s of
        Inl x \<Rightarrow> Inl x
      | Inr (u, s1) \<Rightarrow>
          (let df = DataFrame_records (items (records_deque s1))
           in case to_csv env df s1 of
                Inl x \<Rightarrow> Inl x
              | Inr (u', s2) \<Rightarrow>
                  (let s3 = logger_info (''Saving prices to '' @ fp env) s2
                   in Inr ((), asyncio_sleep interval s3))))"

text \<open>\<^verbatim>\<open>for _ in range(n)\<close>.\<close>

fun for_rounds :: "'n env \<Rightarrow> string list \<Rightarrow> nat \<Rightarrow> nat \<Rightarrow> 'n state \<Rightarrow> ('n, unit) result" where
  "for_rounds env cs interval 0 s = Inr ((), s)"
| "for_rounds env cs interval (Suc n) s =
     (case polling_round env cs interval s of
        Inl x \<Rightarrow> Inl x
      | Inr (u, s') \<Rightarrow> for_rounds env cs interval n s')"

text \<open>Lines 108 to 124: the settings are logged, the deque is made, and the file is
  created when \<^verbatim>\<open>os.path.exists(fp)\<close> is false.\<close>

definition startup :: "'n env \<Rightarrow> nat \<Rightarrow> nat \<Rightarrow> nat \<Rightarrow> 'n state \<Rightarrow> ('n, unit) result" where
  "startup env interval runtime n s =
     (let s1 = logger_info (''update_interval: '' @ str_nat interval) s;
          s2 = logger_info (''total_runtime: '' @ str_nat runtime) s1;
          s3 = logger_info (''num_updates: '' @ str_nat n) s2;
          s4 = s3\<lparr>records_deque := new_deque n\<rparr>
      in case (if snapshot s4 = None then init_csv_file env s4 else Inr ((), s4)) of
           Inl x \<Rightarrow> Inl x
         | Inr (u, s5) \<Rightarrow> Inr ((), logger_info (''Initialized csv file at '' @ fp env) s5))"

text \<open>The block under \<^verbatim>\<open>try\<close>, with the company list and the three settings as
  parameters.\<close>

definition try_body :: "'n env \<Rightarrow> string list \<Rightarrow> nat \<Rightarrow> nat \<Rightarrow> nat \<Rightarrow> 'n state \<Rightarrow>
    ('n, unit) result" where
  "try_body env cs interval runtime n s =
     (case startup env interval runtime n s of
        Inl x \<Rightarrow> Inl x
      | Inr (u, s') \<Rightarrow> for_rounds env cs interval n s')"

text \<open>The whole coroutine: \<^verbatim>\<open>except Exception as e\<close> logs the exception and the
  function returns.\<close>

definition update_csv_stock_with :: "'n env \<Rightarrow> string list \<Rightarrow> nat \<Rightarrow> nat \<Rightarrow> nat \<Rightarrow>
    'n state \<Rightarrow> 'n state" where
  "update_csv_stock_with env cs interval runtime n s =
     (case try_body env cs interval runtime n (logger_info ''Calling update_csv_stock'' s) of
        Inl (e, s') \<Rightarrow> logger_error e s'
      | Inr (u, s') \<Rightarrow> s')"

definition update_csv_stock :: "'n env \<Rightarrow> 'n state \<Rightarrow> 'n state" where
  "update_csv_stock env s =
     update_csv_stock_with env companies update_interval total_runtime num_updates s"

section \<open>Notions used in the statements\<close>

text \<open>The state a call ends in, whether it returned or raised.\<close>

definition outcome_state :: "('n, 'a) result \<Rightarrow> 'n state" where
  "outcome_state r = (case r of Inl (e, s) \<Rightarrow> s | Inr (a, s) \<Rightarrow> s)"

text \<open>The exceptions written to the log at error level, oldest first.\<close>

definition errors_logged :: "'n state \<Rightarrow> error list" where
  "errors_logged s = concat (map (\<lambda>l. case l of Error e \<Rightarrow> [e] | _ \<Rightarrow> []) (logged s))"

text \<open>What a quote call leaves behind, whatever its outcome: one more request, for the
  ticker's URL, and nothing else but info-level log lines.\<close>

definition after_quote_call :: "string \<Rightarrow> 'n state \<Rightarrow> 'n state \<Rightarrow> bool" where
  "after_quote_call ticker s s' \<longleftrightarrow>
     requests s' = requests s @ [stock_api_url ticker] \<and>
     snapshot s' = snapshot s \<and> clock_reads s' = clock_reads s \<and> writes s' = writes s \<and>
     sleeps s' = sleeps s \<and> records_deque s' = records_deque s \<and>
     errors_logged s' = errors_logged s"

text \<open>The requests of one round that meets no exception: two per company.\<close>

definition round_requests :: "string list \<Rightarrow> string list" where
  "round_requests cs =
     concat (map (\<lambda>c. case lookup_ticker c of
                        Inl e \<Rightarrow> []
                      | Inr ticker \<Rightarrow> [stock_api_url ticker, stock_api_url ticker]) cs)"

text \<open>The deque holds no more than \<^verbatim>\<open>maxlen\<close> items.\<close>

definition deque_bounded :: "'a deque \<Rightarrow> bool" where
  "deque_bounded d \<longleftrightarrow> length (items d) \<le> maxlen d"

text \<open>The two header lines that occur: the one \<^verbatim>\<open>init_csv_file\<close> writes and the one made of
  the keys of \<^verbatim>\<open>new_record\<close>.\<close>

definition header_Stock_Price :: string where
  "header_Stock_Price = ''Company,Ticker,Time,Stock_Price'' @ [CHR 0x0A]"

definition header_Price :: string where
  "header_Price = ''Company,Ticker,Time,Price'' @ [CHR 0x0A]"

text \<open>An environment in which every fetch answers a payload holding both quote fields, and
  one in which no write fails.\<close>

definition quotes_ok :: "'n env \<Rightarrow> bool" where
  "quotes_ok env \<longleftrightarrow>
     (\<forall>k url. \<exists>d p h. fetch_from_url env k url = Inr d \<and>
        quote_field ''regularMarketPrice'' d = Inr p \<and>
        quote_field ''regularMarketDayHigh'' d = Inr h)"

definition writes_ok :: "'n env \<Rightarrow> bool" where
  "writes_ok env \<longleftrightarrow> (\<forall>k. to_csv_fault env k = None)"

subsection \<open>Concrete inputs\<close>

text \<open>A payload of the shape the endpoint answers with.\<close>

definition quote_payload :: "'n \<Rightarrow> 'n \<Rightarrow> 'n json" where
  "quote_payload price high =
     JObj [(''optionChain'',
        JObj [(''result'',
          JArr [JObj [(''quote'',
            JObj [(''regularMarketPrice'', JNum price),
                  (''regularMarketDayHigh'', JNum high)])]])])]"

text \<open>A fresh process: no snapshot file, nothing requested, logged or slept yet.\<close>

definition s_init :: "nat state" where
  "s_init = \<lparr>snapshot = None, requests = [], clock_reads = 0, writes = 0, sleeps = [],
     logged = [], records_deque = new_deque 0\<rparr>"

text \<open>Every fetch succeeds; the first two clock reads fall in the first round.\<close>

definition env_two_rounds :: "nat env" where
  "env_two_rounds =
     \<lparr>fetch_from_url = (\<lambda>k url. Inr (quote_payload (100 + k) 200)),
      now = (\<lambda>k. if k < 2 then ''t1'' else ''t2''),
      to_csv_fault = (\<lambda>k. None),
      fp = ''data/mtcars_stock.csv'',
      str_price = (\<lambda>col v. case v of JNum n \<Rightarrow> str_nat n | _ \<Rightarrow> [])\<rparr>"

text \<open>A fresh process whose deque has room for three readings, and one that finds a
  snapshot file left by an earlier run.\<close>

definition s_three :: "nat state" where
  "s_three = s_init\<lparr>records_deque := new_deque 3\<rparr>"

definition s_old_file :: "nat state" where
  "s_old_file = s_init\<lparr>snapshot := Some ''stale''\<rparr>"

text \<open>A state whose deque holds one reading; the same deque later, after an older file,
  seven clock reads and three writes; and an environment with a later clock.\<close>

definition s_one_reading :: "nat state" where
  "s_one_reading = s_init\<lparr>records_deque :=
     \<lparr>maxlen = 2, items = [\<lparr>Company = ''Synopys'', Ticker = ''SNPS'', Time = ''t1'',
                             Price = JNum 101\<rparr>]\<rparr>\<rparr>"

definition s_later :: "nat state" where
  "s_later = s_one_reading\<lparr>snapshot := Some ''stale'', clock_reads := 7, writes := 3\<rparr>"

definition env_later :: "nat env" where
  "env_later = env_two_rounds\<lparr>now := (\<lambda>k. ''t9'')\<rparr>"

text \<open>An environment in which every write of the file fails after the file was
  truncated, before any text reached it; one in which the file cannot be opened for
  writing; and one in which every fetch fails.\<close>

definition env_disk_full :: "nat env" where
  "env_disk_full =
     env_two_rounds\<lparr>to_csv_fault :=
       (\<lambda>k. Some (AtWrite 0 (OSError ''No space left on device'')))\<rparr>"



section \<open>Effects of the single steps\<close>

lemma outcome_state_simps [simp]:
  "outcome_state (Inl (e, s)) = s" "outcome_state (Inr (a, s)) = s"
  by (simp_all add: outcome_state_def)

lemma deque_append_maxlen [simp]: "maxlen (deque_append d x) = maxlen d"
  by (simp add: deque_append_def Let_def)

lemma deque_append_items:
  "items (deque_append d x) =
     (if maxlen d < Suc (length (items d)) then tl (items d @ [x]) else items d @ [x])"
  by (simp add: deque_append_def Let_def)

lemma deque_append_bounded:
  "length (items d) \<le> maxlen d \<Longrightarrow> length (items (deque_append d x)) \<le> maxlen d"
  by (simp add: deque_append_items)

lemma deque_append_drop:
  assumes "length (items d) \<le> maxlen d"
  shows "items (deque_append d x) = drop (Suc (length (items d)) - maxlen d) (items d @ [x])"
proof (cases "length (items d) = maxlen d")
  case True
  then have "Suc (length (items d)) - maxlen d = Suc 0" by simp
  moreover have "drop (Suc 0) (items d @ [x]) = tl (items d @ [x])"
    by (simp only: drop_Suc drop_0)
  ultimately show ?thesis using True by (simp only: deque_append_items) simp
next
  case False
  with assms have "length (items d) < maxlen d" by simp
  then show ?thesis by (simp add: deque_append_items)
qed

lemma foldl_deque_append_maxlen [simp]: "maxlen (foldl deque_append d xs) = maxlen d"
  by (induction xs arbitrary: d) simp_all

lemma foldl_deque_append_length:
  "length (items d) \<le> maxlen d \<Longrightarrow>
   length (items (foldl deque_append d xs)) = min (maxlen d) (length (items d) + length xs)"
proof (induction xs arbitrary: d)
  case Nil
  then show ?case by simp
next
  case (Cons x xs)
  have "length (items (deque_append d x)) \<le> maxlen (deque_append d x)"
    using Cons.prems by (simp add: deque_append_items)
  from Cons.IH [OF this] Cons.prems show ?case
    by (simp add: deque_append_items min_def)
qed

lemma foldl_deque_append_items:
  assumes "length (items d) \<le> maxlen d"
  shows "items (foldl deque_append d xs) =
     drop (length (items d) + length xs - maxlen d) (items d @ xs)"
proof (induction xs rule: rev_induct)
  case Nil
  from assms show ?case by simp
next
  case (snoc x xs)
  let ?d = "foldl deque_append d xs"
  let ?k = "length (items d) + length xs - maxlen d"
  have len: "length (items ?d) = min (maxlen d) (length (items d) + length xs)"
    using assms by (rule foldl_deque_append_length)
  have bounded: "length (items ?d) \<le> maxlen ?d"
    using len by simp
  have "items (foldl deque_append d (xs @ [x])) = items (deque_append ?d x)"
    by simp
  also have "\<dots> = drop (Suc (length (items ?d)) - maxlen d) (items ?d @ [x])"
    using deque_append_drop [OF bounded, of x] by simp
  also have "\<dots> = drop (Suc (length (items ?d)) - maxlen d) (drop ?k (items d @ xs) @ [x])"
    using snoc by simp
  also have "\<dots> = drop (Suc (length (items ?d)) - maxlen d) (drop ?k ((items d @ xs) @ [x]))"
    by (simp only: drop_append) simp
  also have "\<dots> = drop (Suc (length (items ?d)) - maxlen d + ?k) ((items d @ xs) @ [x])"
    by (simp only: drop_drop)
  also have "Suc (length (items ?d)) - maxlen d + ?k = length (items d) + length (xs @ [x]) - maxlen d"
    using len by (auto simp add: min_def)
  finally show ?case by simp
qed

lemma errors_logged_simps [simp]:
  "errors_logged (logger_info m s) = errors_logged s"
  "errors_logged (logger_info_result d s) = errors_logged s"
  "errors_logged (logger_error e s) = errors_logged s @ [e]"
  "errors_logged (asyncio_sleep k s) = errors_logged s"
  by (simp_all add: errors_logged_def logger_info_def logger_info_result_def
      logger_error_def asyncio_sleep_def)

lemma fetch_cases:
  obtains (raised) e where "fetch env url s = Inl (e, s\<lparr>requests := requests s @ [url]\<rparr>)"
  | (answered) d where "fetch env url s = Inr (d, s\<lparr>requests := requests s @ [url]\<rparr>)"
  by (cases "fetch_from_url env (length (requests s)) url") (auto simp add: fetch_def Let_def)

lemma get_stock_price_effect:
  "after_quote_call ticker s (outcome_state (get_stock_price env ticker s))"
  by (rule fetch_cases [of env "stock_api_url ticker" "logger_info (''Calling fetch_from_url: '' @ stock_api_url ticker)
         (logger_info ''Calling get_stock_price for {ticker}'' s)"])
    (auto simp add: get_stock_price_def Let_def after_quote_call_def logger_info_def
      logger_info_result_def errors_logged_def split: sum.splits)

lemma get_daily_high_effect:
  "after_quote_call ticker s (outcome_state (get_daily_high env ticker s))"
  by (rule fetch_cases [of env "stock_api_url ticker" "logger_info (''Calling fetch_from_url: '' @ stock_api_url ticker)
         (logger_info ''Calling get_daily_high for {ticker}'' s)"])
    (auto simp add: get_daily_high_def Let_def after_quote_call_def logger_info_def
      logger_info_result_def errors_logged_def split: sum.splits)


lemma company_step_Inr:
  assumes "company_step env company s = Inr (u, s')"
  shows "\<exists>ticker price.
     lookup_ticker company = Inr ticker \<and>
     requests s' = requests s @ [stock_api_url ticker, stock_api_url ticker] \<and>
     records_deque s' = deque_append (records_deque s)
        \<lparr>Company = company, Ticker = ticker, Time = now env (clock_reads s), Price = price\<rparr> \<and>
     clock_reads s' = Suc (clock_reads s) \<and>
     snapshot s' = snapshot s \<and> writes s' = writes s \<and> sleeps s' = sleeps s \<and>
     errors_logged s' = errors_logged s"
proof -
  from assms obtain ticker where t: "lookup_ticker company = Inr ticker"
    by (cases "lookup_ticker company") (simp_all add: company_step_def)
  from assms t obtain price s1 where p: "get_stock_price env ticker s = Inr (price, s1)"
    by (cases "get_stock_price env ticker s") (auto simp add: company_step_def)
  from assms t p obtain high s2 where h: "get_daily_high env ticker s1 = Inr (high, s2)"
    by (cases "get_daily_high env ticker s1") (auto simp add: company_step_def)
  have e1: "after_quote_call ticker s s1"
    using get_stock_price_effect [of ticker s env] p by simp
  have e2: "after_quote_call ticker s1 s2"
    using get_daily_high_effect [of ticker s1 env] h by simp
  have s': "s' = s2\<lparr>clock_reads := Suc (clock_reads s2),
      records_deque := deque_append (records_deque s2)
        \<lparr>Company = company, Ticker = ticker, Time = now env (clock_reads s2), Price = price\<rparr>\<rparr>"
    using assms t p h by (simp add: company_step_def Let_def)
  show ?thesis
    using t e1 e2 by (intro exI [of _ ticker] exI [of _ price])
      (simp add: s' after_quote_call_def errors_logged_def)
qed

lemma company_step_Inl:
  assumes "company_step env company s = Inl (e, s')"
  shows "records_deque s' = records_deque s \<and> clock_reads s' = clock_reads s \<and>
     snapshot s' = snapshot s \<and> writes s' = writes s \<and> sleeps s' = sleeps s \<and>
     errors_logged s' = errors_logged s \<and>
     (\<exists>rs. requests s' = requests s @ rs \<and> length rs \<le> 2)"
proof (cases "lookup_ticker company")
  case (Inl e0)
  with assms show ?thesis by (simp add: company_step_def)
next
  case (Inr ticker)
  show ?thesis
  proof (cases "get_stock_price env ticker s")
    case (Inl x)
    obtain e1 s1 where x: "x = (e1, s1)" by (cases x)
    have "after_quote_call ticker s s1"
      using get_stock_price_effect [of ticker s env] Inl x by simp
    moreover have "s' = s1"
      using assms Inr Inl x by (simp add: company_step_def)
    ultimately show ?thesis by (simp add: after_quote_call_def)
  next
    case p: (Inr y)
    obtain price s1 where y: "y = (price, s1)" by (cases y)
    have e1: "after_quote_call ticker s s1"
      using get_stock_price_effect [of ticker s env] p y by simp
    show ?thesis
    proof (cases "get_daily_high env ticker s1")
      case (Inl x)
      obtain e2 s2 where x: "x = (e2, s2)" by (cases x)
      have "after_quote_call ticker s1 s2"
        using get_daily_high_effect [of ticker s1 env] Inl x by simp
      moreover have "s' = s2"
        using assms Inr p y Inl x by (simp add: company_step_def)
      ultimately show ?thesis using e1 by (simp add: after_quote_call_def)
    next
      case h: (Inr z)
      obtain high s2 where "z = (high, s2)" by (cases z)
      with assms Inr p y h show ?thesis by (simp add: company_step_def Let_def)
    qed
  qed
qed


lemma for_companies_Inr:
  "for_companies env cs s = Inr (u, s') \<Longrightarrow>
   requests s' = requests s @ round_requests cs \<and>
   (\<exists>new. map Company new = cs \<and>
      map Time new = map (now env) [clock_reads s ..< clock_reads s + length cs] \<and>
      map (\<lambda>r. Inr (Ticker r)) new = map lookup_ticker cs \<and>
      records_deque s' = foldl deque_append (records_deque s) new) \<and>
   clock_reads s' = clock_reads s + length cs \<and>
   snapshot s' = snapshot s \<and> writes s' = writes s \<and> sleeps s' = sleeps s \<and>
   errors_logged s' = errors_logged s"
proof (induction cs arbitrary: s)
  case Nil
  then show ?case by (simp add: round_requests_def)
next
  case (Cons c cs)
  from Cons.prems obtain s1 where
    c: "company_step env c s = Inr ((), s1)" and rest: "for_companies env cs s1 = Inr (u, s')"
    by (cases "company_step env c s") auto
  from company_step_Inr [OF c] obtain ticker price where
    t: "lookup_ticker c = Inr ticker" and
    rq: "requests s1 = requests s @ [stock_api_url ticker, stock_api_url ticker]" and
    dq: "records_deque s1 = deque_append (records_deque s)
        \<lparr>Company = c, Ticker = ticker, Time = now env (clock_reads s), Price = price\<rparr>" and
    fr: "clock_reads s1 = Suc (clock_reads s)" "snapshot s1 = snapshot s"
      "writes s1 = writes s" "sleeps s1 = sleeps s" "errors_logged s1 = errors_logged s"
    by blast
  from Cons.IH [OF rest] obtain new where
    ih: "requests s' = requests s1 @ round_requests cs"
      "map Company new = cs"
      "map Time new = map (now env) [clock_reads s1 ..< clock_reads s1 + length cs]"
      "map (\<lambda>r. Inr (Ticker r)) new = map lookup_ticker cs"
      "records_deque s' = foldl deque_append (records_deque s1) new"
      "clock_reads s' = clock_reads s1 + length cs"
      "snapshot s' = snapshot s1" "writes s' = writes s1" "sleeps s' = sleeps s1"
      "errors_logged s' = errors_logged s1"
    by blast
  let ?r = "\<lparr>Company = c, Ticker = ticker, Time = now env (clock_reads s), Price = price\<rparr>"
  have upt: "[clock_reads s ..< clock_reads s + length (c # cs)] =
      clock_reads s # [Suc (clock_reads s) ..< Suc (clock_reads s) + length cs]"
    using upt_conv_Cons [of "clock_reads s" "Suc (clock_reads s + length cs)"] by simp
  have new': "map Company (?r # new) = c # cs"
    "map Time (?r # new) = map (now env) [clock_reads s ..< clock_reads s + length (c # cs)]"
    "map (\<lambda>r. Inr (Ticker r)) (?r # new) = map lookup_ticker (c # cs)"
    "records_deque s' = foldl deque_append (records_deque s) (?r # new)"
    using ih t dq fr by (simp_all only: upt) simp_all
  have "\<exists>new. map Company new = c # cs \<and>
      map Time new = map (now env) [clock_reads s ..< clock_reads s + length (c # cs)] \<and>
      map (\<lambda>r. Inr (Ticker r)) new = map lookup_ticker (c # cs) \<and>
      records_deque s' = foldl deque_append (records_deque s) new"
    by (rule exI [of _ "?r # new"]) (intro conjI new')
  moreover have "requests s' = requests s @ round_requests (c # cs)"
    using ih rq t by (simp add: round_requests_def)
  ultimately show ?case using ih fr by simp
qed

lemma for_companies_Inl:
  "for_companies env cs s = Inl (e, s') \<Longrightarrow>
   snapshot s' = snapshot s \<and> writes s' = writes s \<and> sleeps s' = sleeps s \<and>
   errors_logged s' = errors_logged s \<and> maxlen (records_deque s') = maxlen (records_deque s)"
proof (induction cs arbitrary: s)
  case Nil
  then show ?case by simp
next
  case (Cons c cs)
  show ?case
  proof (cases "company_step env c s")
    case (Inl x)
    with Cons.prems have "company_step env c s = Inl (e, s')" by simp
    from company_step_Inl [OF this] show ?thesis by simp
  next
    case (Inr y)
    obtain u s1 where y: "y = (u, s1)" by (cases y)
    with Inr Cons.prems have rest: "for_companies env cs s1 = Inl (e, s')" by simp
    from Inr y have "company_step env c s = Inr (u, s1)" by simp
    from company_step_Inr [OF this] Cons.IH [OF rest] show ?thesis by auto
  qed
qed

lemma to_csv_Inr:
  "to_csv env df s = Inr (u, s') \<Longrightarrow>
   to_csv_fault env (writes s) = None \<and>
   s' = s\<lparr>writes := Suc (writes s), snapshot := Some (to_csv_text (str_price env) df)\<rparr>"
  by (auto simp add: to_csv_def Let_def split: option.splits)

lemma to_csv_Inl:
  "to_csv env df s = Inl (e, s') \<Longrightarrow>
   \<exists>f. to_csv_fault env (writes s) = Some f \<and> e = fault_error f \<and>
     s' = s\<lparr>writes := Suc (writes s),
            snapshot := fault_leaves f (to_csv_text (str_price env) df) (snapshot s)\<rparr>"
  by (auto simp add: to_csv_def Let_def split: option.splits)

lemma polling_round_Inr:
  assumes "polling_round env cs interval s = Inr (u, s')"
  shows "\<exists>s1. for_companies env cs s = Inr ((), s1) \<and>
     to_csv_fault env (writes s) = None \<and>
     snapshot s' = Some (to_csv_text (str_price env)
                     (DataFrame_records (items (records_deque s')))) \<and>
     records_deque s' = records_deque s1 \<and> requests s' = requests s1 \<and>
     clock_reads s' = clock_reads s1 \<and>
     writes s' = Suc (writes s) \<and> sleeps s' = sleeps s @ [interval] \<and>
     errors_logged s' = errors_logged s"
proof -
  from assms obtain s1 where c: "for_companies env cs s = Inr ((), s1)"
    by (cases "for_companies env cs s") (auto simp add: polling_round_def)
  let ?df = "DataFrame_records (items (records_deque s1))"
  from assms c obtain s2 where w: "to_csv env ?df s1 = Inr ((), s2)"
    by (cases "to_csv env ?df s1") (auto simp add: polling_round_def Let_def)
  from assms c w have s': "s' = asyncio_sleep interval (logger_info (''Saving prices to '' @ fp env) s2)"
    by (simp add: polling_round_def Let_def)
  from to_csv_Inr [OF w] for_companies_Inr [OF c] show ?thesis
    using c by (simp add: s' asyncio_sleep_def logger_info_def errors_logged_def)
qed

lemma polling_round_Inl:
  assumes "polling_round env cs interval s = Inl (e, s')"
  shows "sleeps s' = sleeps s \<and>
     errors_logged s' = errors_logged s \<and>
     maxlen (records_deque s') = maxlen (records_deque s)"
proof (cases "for_companies env cs s")
  case (Inl x)
  with assms have "for_companies env cs s = Inl (e, s')"
    by (simp add: polling_round_def)
  from for_companies_Inl [OF this] show ?thesis by simp
next
  case (Inr y)
  obtain u s1 where y: "y = (u, s1)" by (cases y)
  let ?df = "DataFrame_records (items (records_deque s1))"
  from Inr y have c: "for_companies env cs s = Inr (u, s1)" by simp
  from assms c have w: "to_csv env ?df s1 = Inl (e, s')"
    by (cases "to_csv env ?df s1") (auto simp add: polling_round_def Let_def)
  from for_companies_Inr [OF c] obtain new where
    "records_deque s1 = foldl deque_append (records_deque s) new"
    "snapshot s1 = snapshot s" "sleeps s1 = sleeps s" "errors_logged s1 = errors_logged s"
    by blast
  with to_csv_Inl [OF w] show ?thesis by (auto simp add: errors_logged_def)
qed

lemma for_rounds_Inr:
  "for_rounds env cs interval n s = Inr (u, s') \<Longrightarrow>
   sleeps s' = sleeps s @ replicate n interval \<and>
   writes s' = writes s + n \<and>
   requests s' = requests s @ concat (replicate n (round_requests cs)) \<and>
   clock_reads s' = clock_reads s + n * length cs \<and>
   errors_logged s' = errors_logged s \<and>
   maxlen (records_deque s') = maxlen (records_deque s)"
proof (induction n arbitrary: s)
  case 0
  then show ?case by simp
next
  case (Suc n)
  from Suc.prems obtain s1 where
    r: "polling_round env cs interval s = Inr ((), s1)" and
    rest: "for_rounds env cs interval n s1 = Inr (u, s')"
    by (cases "polling_round env cs interval s") auto
  from polling_round_Inr [OF r] obtain s0 where
    c: "for_companies env cs s = Inr ((), s0)" and
    e: "records_deque s1 = records_deque s0" "requests s1 = requests s0"
       "clock_reads s1 = clock_reads s0"
       "writes s1 = Suc (writes s)" "sleeps s1 = sleeps s @ [interval]"
       "errors_logged s1 = errors_logged s"
    by blast
  from for_companies_Inr [OF c] obtain new where
    f: "requests s0 = requests s @ round_requests cs"
       "records_deque s0 = foldl deque_append (records_deque s) new"
       "clock_reads s0 = clock_reads s + length cs"
    by blast
  from Suc.IH [OF rest] e f show ?case
    by (simp add: replicate_append_same)
qed

lemma for_rounds_Inl:
  "for_rounds env cs interval n s = Inl (e, s') \<Longrightarrow>
   (\<exists>k<n. sleeps s' = sleeps s @ replicate k interval) \<and>
   errors_logged s' = errors_logged s \<and>
   maxlen (records_deque s') = maxlen (records_deque s)"
proof (induction n arbitrary: s)
  case 0
  then show ?case by simp
next
  case (Suc n)
  show ?case
  proof (cases "polling_round env cs interval s")
    case (Inl x)
    with Suc.prems have "polling_round env cs interval s = Inl (e, s')" by simp
    from polling_round_Inl [OF this] show ?thesis by simp
  next
    case (Inr y)
    obtain u s1 where y: "y = (u, s1)" by (cases y)
    from Inr y have r: "polling_round env cs interval s = Inr (u, s1)" by simp
    with Suc.prems have rest: "for_rounds env cs interval n s1 = Inl (e, s')" by simp
    from polling_round_Inr [OF r] obtain s0 where
      c: "for_companies env cs s = Inr ((), s0)" and
      e: "records_deque s1 = records_deque s0" "sleeps s1 = sleeps s @ [interval]"
       "errors_logged s1 = errors_logged s"
      by blast
    from for_companies_Inr [OF c] obtain new where
      f: "records_deque s0 = foldl deque_append (records_deque s) new"
      by blast
    from Suc.IH [OF rest] obtain k where
      k: "k < n" "sleeps s' = sleeps s1 @ replicate k interval" and
      g: "errors_logged s' = errors_logged s1"
         "maxlen (records_deque s') = maxlen (records_deque s1)"
      by blast
    have "Suc k < Suc n" "sleeps s' = sleeps s @ replicate (Suc k) interval"
      using k e by (simp_all add: replicate_append_same)
    then have "\<exists>k<Suc n. sleeps s' = sleeps s @ replicate k interval" by blast
    with g e f show ?thesis by simp
  qed
qed

lemma csv_field_plain: "\<not> list_ex csv_special f \<Longrightarrow> csv_field f = f"
  by (simp add: csv_field_def)

lemma init_header:
  "to_csv_text fmt (DataFrame_columns [''Company'', ''Ticker'', ''Time'', ''Stock_Price''])
     = header_Stock_Price"
  by (simp add: to_csv_text_def DataFrame_columns_def csv_line_def csv_field_def
      csv_special_def header_Stock_Price_def)

lemma records_header:
  "recs \<noteq> [] \<Longrightarrow>
   to_csv_text fmt (DataFrame_records recs) =
     header_Price @ concat (map (csv_row fmt (map Price recs)) recs)"
  by (simp add: to_csv_text_def DataFrame_records_def csv_line_def csv_field_def
      csv_special_def header_Price_def)

lemma headers_differ: "header_Price \<noteq> header_Stock_Price"
  by (simp add: header_Price_def header_Stock_Price_def)

lemma startup_absent:
  assumes "snapshot s = None" "to_csv_fault env (writes s) = None"
  shows "\<exists>s'. startup env interval runtime n s = Inr ((), s') \<and>
     snapshot s' = Some header_Stock_Price \<and> writes s' = Suc (writes s) \<and>
     requests s' = requests s \<and> sleeps s' = sleeps s \<and> clock_reads s' = clock_reads s \<and>
     errors_logged s' = errors_logged s \<and> records_deque s' = new_deque n"
  using assms
  by (simp add: startup_def Let_def init_csv_file_def to_csv_def logger_info_def init_header
      errors_logged_def)

lemma startup_absent_fault:
  assumes "snapshot s = None" "to_csv_fault env (writes s) = Some f"
  shows "\<exists>s'. startup env interval runtime n s = Inl (fault_error f, s') \<and>
     snapshot s' = fault_leaves f header_Stock_Price None \<and> writes s' = Suc (writes s) \<and>
     requests s' = requests s \<and> sleeps s' = sleeps s \<and> clock_reads s' = clock_reads s \<and>
     errors_logged s' = errors_logged s \<and> records_deque s' = new_deque n"
  using assms
  by (simp add: startup_def Let_def init_csv_file_def to_csv_def logger_info_def init_header
      errors_logged_def)

lemma startup_present:
  assumes "snapshot s = Some c"
  shows "\<exists>s'. startup env interval runtime n s = Inr ((), s') \<and>
     snapshot s' = Some c \<and> writes s' = writes s \<and>
     requests s' = requests s \<and> sleeps s' = sleeps s \<and> clock_reads s' = clock_reads s \<and>
     errors_logged s' = errors_logged s \<and> records_deque s' = new_deque n"
  using assms
  by (simp add: startup_def Let_def logger_info_def errors_logged_def)

lemma startup_frame:
  "requests (outcome_state (startup env interval runtime n s)) = requests s \<and>
   sleeps (outcome_state (startup env interval runtime n s)) = sleeps s \<and>
   errors_logged (outcome_state (startup env interval runtime n s)) = errors_logged s \<and>
   records_deque (outcome_state (startup env interval runtime n s)) = new_deque n"
proof (cases "snapshot s")
  case None
  show ?thesis
  proof (cases "to_csv_fault env (writes s)")
    case nofault: None
    from startup_absent [OF None nofault, of interval runtime n] show ?thesis by auto
  next
    case (Some e)
    from startup_absent_fault [OF None Some, of interval runtime n] show ?thesis by auto
  qed
next
  case (Some c)
  from startup_present [OF Some, of env interval runtime n] show ?thesis by auto
qed

lemma quote_field_payload:
  "quote_field ''regularMarketPrice'' (quote_payload p h) = Inr (JNum p)"
  "quote_field ''regularMarketDayHigh'' (quote_payload p h) = Inr (JNum h)"
  by (simp_all add: quote_field_def quote_payload_def seq_index_def)

lemma get_stock_price_ok:
  assumes "quotes_ok env"
  shows "\<exists>p s'. get_stock_price env ticker s = Inr (p, s')"
proof -
  let ?s2 = "logger_info (''Calling fetch_from_url: '' @ stock_api_url ticker)
         (logger_info ''Calling get_stock_price for {ticker}'' s)"
  from assms obtain d p where
    "fetch_from_url env (length (requests ?s2)) (stock_api_url ticker) = Inr d"
    "quote_field ''regularMarketPrice'' d = Inr p"
    unfolding quotes_ok_def by blast
  then show ?thesis
    by (simp add: get_stock_price_def fetch_def Let_def)
qed

lemma get_daily_high_ok:
  assumes "quotes_ok env"
  shows "\<exists>h s'. get_daily_high env ticker s = Inr (h, s')"
proof -
  let ?s2 = "logger_info (''Calling fetch_from_url: '' @ stock_api_url ticker)
         (logger_info ''Calling get_daily_high for {ticker}'' s)"
  from assms obtain d h where
    "fetch_from_url env (length (requests ?s2)) (stock_api_url ticker) = Inr d"
    "quote_field ''regularMarketDayHigh'' d = Inr h"
    unfolding quotes_ok_def by blast
  then show ?thesis
    by (simp add: get_daily_high_def fetch_def Let_def)
qed

lemma company_step_ok:
  assumes "quotes_ok env" "lookup_ticker company = Inr ticker"
  shows "\<exists>s'. company_step env company s = Inr ((), s')"
proof -
  from get_stock_price_ok [OF assms(1)] obtain p s1 where
    p: "get_stock_price env ticker s = Inr (p, s1)" by blast
  from get_daily_high_ok [OF assms(1)] obtain h s2 where
    h: "get_daily_high env ticker s1 = Inr (h, s2)" by blast
  from assms(2) p h show ?thesis by (simp add: company_step_def Let_def)
qed

lemma for_companies_ok:
  assumes "quotes_ok env"
  shows "list_all (\<lambda>c. \<not> isl (lookup_ticker c)) cs \<Longrightarrow>
     \<exists>s'. for_companies env cs s = Inr ((), s')"
proof (induction cs arbitrary: s)
  case Nil
  then show ?case by simp
next
  case (Cons c cs)
  from Cons.prems obtain ticker where "lookup_ticker c = Inr ticker"
    by (cases "lookup_ticker c") simp_all
  from company_step_ok [OF assms this] obtain s1 where
    "company_step env c s = Inr ((), s1)" by blast
  moreover from Cons.IH [of s1] Cons.prems obtain s' where
    "for_companies env cs s1 = Inr ((), s')" by auto
  ultimately show ?case by simp
qed

lemma polling_round_ok:
  assumes "quotes_ok env" "writes_ok env" "list_all (\<lambda>c. \<not> isl (lookup_ticker c)) cs"
  shows "\<exists>s'. polling_round env cs interval s = Inr ((), s')"
proof -
  from for_companies_ok [OF assms(1,3)] obtain s1 where
    "for_companies env cs s = Inr ((), s1)" by blast
  moreover have "to_csv_fault env (writes s1) = None"
    using assms(2) by (simp add: writes_ok_def)
  ultimately show ?thesis
    by (simp add: polling_round_def to_csv_def Let_def)
qed

lemma for_rounds_ok:
  assumes "quotes_ok env" "writes_ok env" "list_all (\<lambda>c. \<not> isl (lookup_ticker c)) cs"
  shows "\<exists>s'. for_rounds env cs interval n s = Inr ((), s')"
proof (induction n arbitrary: s)
  case 0
  show ?case by simp
next
  case (Suc n)
  from polling_round_ok [OF assms] obtain s1 where
    "polling_round env cs interval s = Inr ((), s1)" by blast
  moreover from Suc [of s1] obtain s' where
    "for_rounds env cs interval n s1 = Inr ((), s')" by blast
  ultimately show ?case by simp
qed

lemma startup_ok:
  assumes "writes_ok env"
  shows "\<exists>s'. startup env interval runtime n s = Inr ((), s')"
proof (cases "snapshot s")
  case None
  moreover have "to_csv_fault env (writes s) = None"
    using assms by (simp add: writes_ok_def)
  ultimately show ?thesis using startup_absent [of s env interval runtime n] by blast
next
  case (Some c)
  then show ?thesis using startup_present [of s c env interval runtime n] by blast
qed

lemma try_body_ok:
  assumes "quotes_ok env" "writes_ok env" "list_all (\<lambda>c. \<not> isl (lookup_ticker c)) cs"
  shows "\<exists>s'. try_body env cs interval runtime n s = Inr ((), s')"
proof -
  from startup_ok [OF assms(2)] obtain s1 where
    "startup env interval runtime n s = Inr ((), s1)" by blast
  moreover from for_rounds_ok [OF assms] obtain s' where
    "for_rounds env cs interval n s1 = Inr ((), s')" by blast
  ultimately show ?thesis by (simp add: try_body_def)
qed

lemma companies_known: "list_all (\<lambda>c. \<not> isl (lookup_ticker c)) companies"
  by (simp add: companies_def lookup_ticker_def stocks_dictionary_def)

lemma try_body_Inr:
  assumes "try_body env cs interval runtime n s = Inr (u, s')"
  shows "sleeps s' = sleeps s @ replicate n interval \<and>
     requests s' = requests s @ concat (replicate n (round_requests cs)) \<and>
     errors_logged s' = errors_logged s \<and>
     maxlen (records_deque s') = n"
proof -
  from assms obtain s1 where
    st: "startup env interval runtime n s = Inr ((), s1)" and
    lp: "for_rounds env cs interval n s1 = Inr (u, s')"
    by (cases "startup env interval runtime n s") (auto simp add: try_body_def)
  from startup_frame [of env interval runtime n s] st for_rounds_Inr [OF lp]
  show ?thesis by (simp add: new_deque_def)
qed

lemma try_body_Inl:
  assumes "try_body env cs interval runtime n s = Inl (e, s')"
  shows "(\<exists>k. k \<le> n \<and> (0 < n \<longrightarrow> k < n) \<and> sleeps s' = sleeps s @ replicate k interval) \<and>
     errors_logged s' = errors_logged s \<and>
     maxlen (records_deque s') = n"
proof (cases "startup env interval runtime n s")
  case (Inl x)
  with assms have st: "startup env interval runtime n s = Inl (e, s')"
    by (simp add: try_body_def)
  have "sleeps s' = sleeps s @ replicate 0 interval"
    using startup_frame [of env interval runtime n s] st by simp
  then have "\<exists>k. k \<le> n \<and> (0 < n \<longrightarrow> k < n) \<and> sleeps s' = sleeps s @ replicate k interval"
    by blast
  with startup_frame [of env interval runtime n s] st show ?thesis
    by (simp add: new_deque_def)
next
  case (Inr y)
  obtain u s1 where y: "y = (u, s1)" by (cases y)
  with Inr have st: "startup env interval runtime n s = Inr (u, s1)" by simp
  with assms have lp: "for_rounds env cs interval n s1 = Inl (e, s')"
    by (simp add: try_body_def)
  from for_rounds_Inl [OF lp] obtain k where
    "k < n" "sleeps s' = sleeps s1 @ replicate k interval"
    "errors_logged s' = errors_logged s1"
    "maxlen (records_deque s') = maxlen (records_deque s1)" by blast
  with startup_frame [of env interval runtime n s] st show ?thesis
    by (auto simp add: new_deque_def intro!: exI [of _ k])
qed

lemma result_cases:
  fixes r :: "('n, 'a) result"
  obtains (raised) e s' where "r = Inl (e, s')" | (returned) a s' where "r = Inr (a, s')"
  by (cases r) auto

lemma deque_bounded_foldl:
  "deque_bounded d \<Longrightarrow> deque_bounded (foldl deque_append d xs)"
  by (simp add: deque_bounded_def foldl_deque_append_length)

lemma for_companies_bounded:
  assumes "deque_bounded (records_deque s)"
  shows "deque_bounded (records_deque (outcome_state (for_companies env cs s)))"
  using assms
proof (induction cs arbitrary: s)
  case Nil
  then show ?case by simp
next
  case (Cons c cs)
  show ?case
  proof (cases "company_step env c s" rule: result_cases)
    case (raised e s')
    from company_step_Inl [OF raised] raised Cons.prems show ?thesis by simp
  next
    case (returned a s1)
    from company_step_Inr [OF returned] Cons.prems have "deque_bounded (records_deque s1)"
      by (auto simp add: deque_bounded_def deque_append_items)
    from Cons.IH [OF this] returned show ?thesis by simp
  qed
qed

lemma polling_round_bounded:
  assumes "deque_bounded (records_deque s)"
  shows "deque_bounded (records_deque (outcome_state (polling_round env cs interval s)))"
proof (cases "for_companies env cs s" rule: result_cases)
  case (raised e s')
  with for_companies_bounded [OF assms, of env cs] show ?thesis
    by (simp add: polling_round_def)
next
  case (returned a s1)
  with for_companies_bounded [OF assms, of env cs]
  have b: "deque_bounded (records_deque s1)" by simp
  let ?df = "DataFrame_records (items (records_deque s1))"
  show ?thesis
  proof (cases "to_csv env ?df s1" rule: result_cases)
    case (raised e s')
    with to_csv_Inl [OF raised] returned b show ?thesis
      by (auto simp add: polling_round_def Let_def)
  next
    case w: (returned a' s2)
    with to_csv_Inr [OF w] returned b show ?thesis
      by (simp add: polling_round_def Let_def asyncio_sleep_def logger_info_def)
  qed
qed

lemma for_rounds_bounded:
  assumes "deque_bounded (records_deque s)"
  shows "deque_bounded (records_deque (outcome_state (for_rounds env cs interval n s)))"
  using assms
proof (induction n arbitrary: s)
  case 0
  then show ?case by simp
next
  case (Suc n)
  show ?case
  proof (cases "polling_round env cs interval s" rule: result_cases)
    case (raised e s')
    with polling_round_bounded [OF Suc.prems, of env cs interval] show ?thesis by simp
  next
    case (returned a s1)
    with polling_round_bounded [OF Suc.prems, of env cs interval]
    have "deque_bounded (records_deque s1)" by simp
    from Suc.IH [OF this] returned show ?thesis by simp
  qed
qed

lemma try_body_bounded:
  "deque_bounded (records_deque (outcome_state (try_body env cs interval runtime n s)))"
proof (cases "startup env interval runtime n s" rule: result_cases)
  case (raised e s')
  with startup_frame [of env interval runtime n s] show ?thesis
    by (simp add: try_body_def deque_bounded_def new_deque_def)
next
  case (returned a s1)
  with startup_frame [of env interval runtime n s]
  have "deque_bounded (records_deque s1)"
    by (simp add: deque_bounded_def new_deque_def)
  from for_rounds_bounded [OF this] returned show ?thesis
    by (simp add: try_body_def)
qed

lemma update_csv_stock_with_outcome:
  "update_csv_stock_with env cs interval runtime n s =
     (let r = try_body env cs interval runtime n (logger_info ''Calling update_csv_stock'' s)
      in if isl r then logger_error (fst (projl r)) (outcome_state r) else outcome_state r)"
  by (cases "try_body env cs interval runtime n (logger_info ''Calling update_csv_stock'' s)"
      rule: result_cases) (simp_all add: update_csv_stock_with_def)

lemma update_csv_stock_with_deque:
  "records_deque (update_csv_stock_with env cs interval runtime n s) =
   records_deque (outcome_state
     (try_body env cs interval runtime n (logger_info ''Calling update_csv_stock'' s)))"
  by (simp add: update_csv_stock_with_outcome Let_def logger_error_def)

lemma try_body_maxlen:
  "maxlen (records_deque (outcome_state (try_body env cs interval runtime n s))) = n"
proof (cases "try_body env cs interval runtime n s" rule: result_cases)
  case (raised e s')
  from try_body_Inl [OF raised] raised show ?thesis by simp
next
  case (returned a s')
  from try_body_Inr [OF returned] returned show ?thesis by simp
qed

lemma deque_append_nonempty: "0 < maxlen d \<Longrightarrow> items (deque_append d x) \<noteq> []"
  by (cases "items d") (auto simp add: deque_append_items)

lemma foldl_deque_append_nonempty:
  "0 < maxlen d \<Longrightarrow> xs \<noteq> [] \<Longrightarrow> items (foldl deque_append d xs) \<noteq> []"
  by (induction xs rule: rev_induct) (simp_all add: deque_append_nonempty)

lemma for_rounds_last:
  "for_rounds env cs interval (Suc n) s = Inr (u, s') \<Longrightarrow>
   \<exists>s1. polling_round env cs interval s1 = Inr ((), s') \<and>
     maxlen (records_deque s1) = maxlen (records_deque s)"
proof (induction n arbitrary: s)
  case 0
  then show ?case
    by (cases "polling_round env cs interval s" rule: result_cases) auto
next
  case (Suc n)
  from Suc.prems obtain s1 where
    r: "polling_round env cs interval s = Inr ((), s1)" and
    rest: "for_rounds env cs interval (Suc n) s1 = Inr (u, s')"
    by (cases "polling_round env cs interval s" rule: result_cases) auto
  from polling_round_Inr [OF r] obtain s0 where
    c: "for_companies env cs s = Inr ((), s0)" and e: "records_deque s1 = records_deque s0"
    by blast
  from for_companies_Inr [OF c] obtain new where
    "records_deque s0 = foldl deque_append (records_deque s) new" by blast
  with e have "maxlen (records_deque s1) = maxlen (records_deque s)" by simp
  with Suc.IH [OF rest] show ?case by auto
qed

lemma polling_round_snapshot:
  assumes "polling_round env cs interval s = Inr (u, s')"
    and "cs \<noteq> []" and "0 < maxlen (records_deque s)"
  shows "items (records_deque s') \<noteq> [] \<and>
     snapshot s' = Some (header_Price @
       concat (map (csv_row (str_price env) (map Price (items (records_deque s'))))
                 (items (records_deque s'))))"
proof -
  from polling_round_Inr [OF assms(1)] obtain s1 where
    c: "for_companies env cs s = Inr ((), s1)" and
    e: "snapshot s' = Some (to_csv_text (str_price env)
                     (DataFrame_records (items (records_deque s'))))"
       "records_deque s' = records_deque s1"
    by blast
  from for_companies_Inr [OF c] obtain new where
    n: "map Company new = cs" "records_deque s1 = foldl deque_append (records_deque s) new"
    by blast
  from n(1) assms(2) have "new \<noteq> []" by auto
  with n(2) assms(3) e(2) have "items (records_deque s') \<noteq> []"
    by (simp add: foldl_deque_append_nonempty)
  with e(1) show ?thesis by (simp add: records_header)
qed

section \<open>The resolver\<close>

lemma stocks_dictionary_distinct: "distinct (map fst stocks_dictionary)"
  by (simp add: stocks_dictionary_def)

text \<open>
  Claim C3. Every pair of the ticker directory resolves: \<^verbatim>\<open>lookup_ticker\<close> returns exactly
  the ticker listed for the company name. For a name that is not a key of the directory
  it raises \<^verbatim>\<open>KeyError\<close> for that name, an exception of the \<^verbatim>\<open>LookupError\<close> class, and
  returns no value.
\<close>

theorem lookup_ticker_directory:
  "((company, ticker) \<in> set stocks_dictionary \<longrightarrow> lookup_ticker company = Inr ticker) \<and>
   (company \<notin> fst ` set stocks_dictionary \<longrightarrow>
      lookup_ticker company = Inl (KeyError (SKey company)) \<and>
      is_LookupError (KeyError (SKey company)))"
proof (intro conjI impI)
  assume "(company, ticker) \<in> set stocks_dictionary"
  with stocks_dictionary_distinct have "map_of stocks_dictionary company = Some ticker"
    by (rule map_of_is_SomeI)
  then show "lookup_ticker company = Inr ticker"
    by (simp add: lookup_ticker_def)
next
  assume "company \<notin> fst ` set stocks_dictionary"
  then have "map_of stocks_dictionary company = None"
    by (simp add: map_of_eq_None_iff)
  then show "lookup_ticker company = Inl (KeyError (SKey company))"
    by (simp add: lookup_ticker_def)
next
  show "is_LookupError (KeyError (SKey company))" by simp
qed

theorem lookup_ticker_directory_witness:
  "(''Intuit Inc.'', ''INTU'') \<in> set stocks_dictionary \<and>
   lookup_ticker ''Intuit Inc.'' = Inr ''INTU'' \<and>
   ''Nonexistent Corp'' \<notin> fst ` set stocks_dictionary \<and>
   lookup_ticker ''Nonexistent Corp'' = Inl (KeyError (SKey ''Nonexistent Corp'')) \<and>
   is_LookupError (KeyError (SKey ''Nonexistent Corp''))"
proof -
  have a: "(''Intuit Inc.'', ''INTU'') \<in> set stocks_dictionary"
    by (simp add: stocks_dictionary_def)
  have b: "''Nonexistent Corp'' \<notin> fst ` set stocks_dictionary"
    by (simp add: stocks_dictionary_def)
  from a b lookup_ticker_directory [of "''Intuit Inc.''" "''INTU''"]
    lookup_ticker_directory [of "''Nonexistent Corp''" "''X''"]
  show ?thesis by blast
qed

section \<open>The bounded history\<close>

text \<open>
  Claim C2. Whatever the outside world answers, the deque \<^verbatim>\<open>update_csv_stock\<close> ends with
  holds at most \<^verbatim>\<open>num_updates\<close> readings, and \<^verbatim>\<open>num_updates\<close> is its capacity. Appending to
  a deque that is full (and of capacity at least one) drops exactly the oldest reading
  and keeps the others, in their order, before the new one; so after any sequence of
  appends to a fresh deque of capacity \<open>n\<close> the deque holds the last \<open>n\<close> of them, in order.
  With capacity 2 and two companies, the deque after two rounds holds the two readings of
  the second round.
\<close>

theorem deque_never_exceeds_maxlen:
  "length (items (records_deque (update_csv_stock_with env cs interval runtime n s))) \<le> n \<and>
   maxlen (records_deque (update_csv_stock_with env cs interval runtime n s)) = n \<and>
   (0 < maxlen d \<and> length (items d) = maxlen d \<longrightarrow>
      items (deque_append d x) = tl (items d) @ [x] \<and>
      length (items (deque_append d x)) = maxlen d) \<and>
   items (foldl deque_append (new_deque n) xs) = drop (length xs - n) xs \<and>
   map (\<lambda>r. (Company r, Time r))
     (items (records_deque (update_csv_stock_with env_two_rounds
        [''Cadence Design Systems'', ''Synopys''] 60 900 2 s_init))) =
     [(''Cadence Design Systems'', ''t2''), (''Synopys'', ''t2'')]"
proof (intro conjI impI)
  let ?r = "try_body env cs interval runtime n (logger_info ''Calling update_csv_stock'' s)"
  have "deque_bounded (records_deque (outcome_state ?r))"
    by (rule try_body_bounded)
  moreover have m: "maxlen (records_deque (outcome_state ?r)) = n"
    by (rule try_body_maxlen)
  ultimately show
    "length (items (records_deque (update_csv_stock_with env cs interval runtime n s))) \<le> n"
    by (simp add: update_csv_stock_with_deque deque_bounded_def)
  from m show "maxlen (records_deque (update_csv_stock_with env cs interval runtime n s)) = n"
    by (simp add: update_csv_stock_with_deque)
next
  assume a: "0 < maxlen d \<and> length (items d) = maxlen d"
  then have "items d \<noteq> []" by auto
  with a show "items (deque_append d x) = tl (items d) @ [x]"
    by (simp add: deque_append_items)
  with a show "length (items (deque_append d x)) = maxlen d"
    by simp
next
  have "length (items (new_deque n :: 'c deque)) \<le> maxlen (new_deque n :: 'c deque)"
    by (simp add: new_deque_def)
  from foldl_deque_append_items [OF this, of xs]
  show "items (foldl deque_append (new_deque n) xs) = drop (length xs - n) xs"
    by (simp add: new_deque_def)
next
  show "map (\<lambda>r. (Company r, Time r))
     (items (records_deque (update_csv_stock_with env_two_rounds
        [''Cadence Design Systems'', ''Synopys''] 60 900 2 s_init))) =
     [(''Cadence Design Systems'', ''t2''), (''Synopys'', ''t2'')]"
    by code_simp
qed

theorem deque_never_exceeds_maxlen_witness:
  "0 < maxlen \<lparr>maxlen = 2, items = [1, 2 :: nat]\<rparr> \<and>
   length (items \<lparr>maxlen = 2, items = [1, 2 :: nat]\<rparr>) =
     maxlen \<lparr>maxlen = 2, items = [1, 2 :: nat]\<rparr> \<and>
   items (deque_append \<lparr>maxlen = 2, items = [1, 2 :: nat]\<rparr> 3) = [2, 3]"
  using deque_never_exceeds_maxlen [where d = "\<lparr>maxlen = 2, items = [1, 2 :: nat]\<rparr>" and x = 3
      and env = env_two_rounds and cs = "[]" and interval = 0 and runtime = 0 and n = 0
      and s = s_init and xs = "[] :: nat list"]
  by simp

section \<open>One round\<close>

lemma round_requests_tickers:
  "map (\<lambda>r. Inr (Ticker r)) new = map lookup_ticker cs \<Longrightarrow>
   round_requests cs =
     concat (map (\<lambda>r. [stock_api_url (Ticker r), stock_api_url (Ticker r)]) new)"
proof (induction cs arbitrary: new)
  case Nil
  then show ?case by (simp add: round_requests_def)
next
  case (Cons c cs)
  from Cons.prems obtain r rest where new: "new = r # rest"
    by (cases new) auto
  with Cons.prems have "lookup_ticker c = Inr (Ticker r)"
    "map (\<lambda>r. Inr (Ticker r)) rest = map lookup_ticker cs" by auto
  with Cons.IH [of rest] new show ?case by (simp add: round_requests_def)
qed

lemma env_two_rounds_ok: "quotes_ok env_two_rounds" "writes_ok env_two_rounds"
  by (simp_all add: quotes_ok_def writes_ok_def env_two_rounds_def quote_field_payload)

lemma three_known:
  "list_all (\<lambda>c. \<not> isl (lookup_ticker c))
     [''Cadence Design Systems'', ''Synopys'', ''Tractor Supply Company'']"
  by (simp add: lookup_ticker_def stocks_dictionary_def)

lemma length_concat_pairs: "length (concat (map (\<lambda>t. [f t, g t]) ts)) = 2 * length ts"
  by (induction ts) simp_all

text \<open>
  Claim C5. A pass over the company list that meets no exception appends one reading per
  company, in the order of the list: the deque afterwards is the deque before with those
  readings appended one by one, and when it had room for all of them they are its last
  items, in list order.
\<close>

theorem round_appends_in_list_order:
  assumes "for_companies env cs s = Inr (u, s')"
  shows "\<exists>new. map Company new = cs \<and>
      records_deque s' = foldl deque_append (records_deque s) new \<and>
      (length (items (records_deque s)) + length cs \<le> maxlen (records_deque s) \<longrightarrow>
         items (records_deque s') = items (records_deque s) @ new)"
proof -
  from for_companies_Inr [OF assms] obtain new where
    n: "map Company new = cs" "records_deque s' = foldl deque_append (records_deque s) new"
    by blast
  have "length (items (records_deque s)) + length cs \<le> maxlen (records_deque s) \<longrightarrow>
         items (records_deque s') = items (records_deque s) @ new"
  proof
    assume room: "length (items (records_deque s)) + length cs \<le> maxlen (records_deque s)"
    then have b: "length (items (records_deque s)) \<le> maxlen (records_deque s)" by simp
    from n(1) have "length new = length cs" by (metis length_map)
    with room foldl_deque_append_items [OF b, of new] n(2)
    show "items (records_deque s') = items (records_deque s) @ new" by simp
  qed
  with n show ?thesis by blast
qed

theorem round_appends_in_list_order_witness:
  "\<exists>s'. for_companies env_two_rounds
       [''Cadence Design Systems'', ''Synopys'', ''Tractor Supply Company''] s_three
       = Inr ((), s') \<and>
     length (items (records_deque s_three)) + 3 \<le> maxlen (records_deque s_three) \<and>
     map Company (items (records_deque s')) =
       [''Cadence Design Systems'', ''Synopys'', ''Tractor Supply Company'']"
proof -
  let ?cs = "[''Cadence Design Systems'', ''Synopys'', ''Tractor Supply Company'']"
  from for_companies_ok [OF env_two_rounds_ok(1) three_known, of s_three]
  obtain s' where run: "for_companies env_two_rounds ?cs s_three = Inr ((), s')" by blast
  have room: "length (items (records_deque s_three)) + length ?cs \<le> maxlen (records_deque s_three)"
    by (simp add: s_three_def new_deque_def)
  from round_appends_in_list_order [OF run] obtain new where
    n: "map Company new = ?cs \<and>
      records_deque s' = foldl deque_append (records_deque s_three) new \<and>
      (length (items (records_deque s_three)) + length ?cs \<le> maxlen (records_deque s_three) \<longrightarrow>
         items (records_deque s') = items (records_deque s_three) @ new)" ..
  with room have
    "map Company new = ?cs" "items (records_deque s') = items (records_deque s_three) @ new"
    by blast+
  then have "map Company (items (records_deque s')) = ?cs"
    by (simp add: s_three_def new_deque_def)
  with run room show ?thesis by auto
qed

text \<open>
  Claim C7. A call of \<^verbatim>\<open>get_stock_price\<close> and a call of \<^verbatim>\<open>get_daily_high\<close> each issue
  exactly one request, to the options URL of the ticker, whether the call returns or
  raises. A round that meets no exception issues, in list order, two requests to the same
  URL for every company, and no other.
\<close>

theorem two_fetches_per_company:
  "requests (outcome_state (get_stock_price env ticker s)) = requests s @ [stock_api_url ticker] \<and>
   requests (outcome_state (get_daily_high env ticker s)) = requests s @ [stock_api_url ticker] \<and>
   (polling_round env cs interval s = Inr (u, s') \<longrightarrow>
      (\<exists>tickers. map Inr tickers = map lookup_ticker cs \<and>
         requests s' =
           requests s @ concat (map (\<lambda>t. [stock_api_url t, stock_api_url t]) tickers)) \<and>
      length (requests s') = length (requests s) + 2 * length cs)"
proof (intro conjI impI)
  show "requests (outcome_state (get_stock_price env ticker s)) = requests s @ [stock_api_url ticker]"
    using get_stock_price_effect [of ticker s env] by (simp add: after_quote_call_def)
  show "requests (outcome_state (get_daily_high env ticker s)) = requests s @ [stock_api_url ticker]"
    using get_daily_high_effect [of ticker s env] by (simp add: after_quote_call_def)
next
  assume r: "polling_round env cs interval s = Inr (u, s')"
  from polling_round_Inr [OF r] obtain s1 where
    c: "for_companies env cs s = Inr ((), s1)" and q: "requests s' = requests s1" by blast
  from for_companies_Inr [OF c] obtain new where
    n: "requests s1 = requests s @ round_requests cs"
       "map (\<lambda>r. Inr (Ticker r)) new = map lookup_ticker cs"
       "records_deque s1 = foldl deque_append (records_deque s) new"
    by blast
  let ?ts = "map Ticker new"
  have t: "map Inr ?ts = map lookup_ticker cs" using n(2) by (simp add: comp_def)
  have rq: "requests s' = requests s @ concat (map (\<lambda>t. [stock_api_url t, stock_api_url t]) ?ts)"
    using q n(1) round_requests_tickers [OF n(2)] by (simp add: comp_def)
  from t rq show "\<exists>tickers. map Inr tickers = map lookup_ticker cs \<and>
         requests s' =
           requests s @ concat (map (\<lambda>t. [stock_api_url t, stock_api_url t]) tickers)"
    by blast
  from t have "length ?ts = length cs" by (metis length_map)
  with rq show "length (requests s') = length (requests s) + 2 * length cs"
    by (simp only: length_append length_concat_pairs)
qed

theorem two_fetches_per_company_witness:
  "\<exists>s'. polling_round env_two_rounds [''Synopys''] 60 s_init = Inr ((), s') \<and>
     requests s' = [''https://query1.finance.yahoo.com/v7/finance/options/SNPS'',
                    ''https://query1.finance.yahoo.com/v7/finance/options/SNPS'']"
proof -
  have "list_all (\<lambda>c. \<not> isl (lookup_ticker c)) [''Synopys'']"
    by (simp add: lookup_ticker_def stocks_dictionary_def)
  from polling_round_ok [OF env_two_rounds_ok this, of 60 s_init]
  obtain s' where run: "polling_round env_two_rounds [''Synopys''] 60 s_init = Inr ((), s')"
    by blast
  from two_fetches_per_company [of env_two_rounds _ s_init "[''Synopys'']" 60 "()" s'] run
  obtain tickers where
    t: "map Inr tickers = map lookup_ticker [''Synopys'']" and
    r: "requests s' =
       requests s_init @ concat (map (\<lambda>t. [stock_api_url t, stock_api_url t]) tickers)"
    by blast
  from t have "tickers = [''SNPS'']"
    by (cases tickers) (auto simp add: lookup_ticker_def stocks_dictionary_def)
  with r have "requests s' = [''https://query1.finance.yahoo.com/v7/finance/options/SNPS'',
                    ''https://query1.finance.yahoo.com/v7/finance/options/SNPS'']"
    by (simp add: s_init_def stock_api_url_def)
  with run show ?thesis by blast
qed

section \<open>The snapshot file\<close>

lemma for_companies_snapshot:
  "snapshot (outcome_state (for_companies env cs s)) = snapshot s \<and>
   writes (outcome_state (for_companies env cs s)) = writes s"
proof (cases "for_companies env cs s" rule: result_cases)
  case (raised e s')
  from for_companies_Inl [OF raised] raised show ?thesis by simp
next
  case (returned a s')
  from for_companies_Inr [OF returned] returned show ?thesis by simp
qed

lemma to_csv_returns:
  "to_csv_fault env (writes s) = None \<Longrightarrow>
   to_csv env df s = Inr ((), outcome_state (to_csv env df s))"
  by (simp add: to_csv_def Let_def)

text \<open>
  Claim C6. When the snapshot file does not exist at startup and the write succeeds, the
  lines before the loop create it holding the header line
  \<^verbatim>\<open>Company,Ticker,Time,Stock_Price\<close> and nothing else; no request has been issued and no
  reading taken by then, and the rounds start from that state.
\<close>

theorem missing_file_created_with_header:
  assumes "snapshot s = None" and "to_csv_fault env (writes s) = None"
  shows "\<exists>s'. startup env interval runtime n s = Inr ((), s') \<and>
     snapshot s' = Some (''Company,Ticker,Time,Stock_Price'' @ [CHR 0x0A]) \<and>
     requests s' = requests s \<and> sleeps s' = sleeps s \<and>
     items (records_deque s') = [] \<and>
     try_body env cs interval runtime n s = for_rounds env cs interval n s'"
proof -
  from startup_absent [OF assms, of interval runtime n] obtain s' where
    st: "startup env interval runtime n s = Inr ((), s')" and
    e: "snapshot s' = Some header_Stock_Price" "requests s' = requests s"
       "sleeps s' = sleeps s" "records_deque s' = new_deque n"
    by blast
  from st have "try_body env cs interval runtime n s = for_rounds env cs interval n s'"
    by (simp add: try_body_def)
  with st e show ?thesis
    by (simp add: header_Stock_Price_def new_deque_def)
qed

theorem missing_file_created_with_header_witness:
  "snapshot s_init = None \<and> to_csv_fault env_two_rounds (writes s_init) = None \<and>
   (\<exists>s'. startup env_two_rounds 60 900 100 s_init = Inr ((), s') \<and>
      snapshot s' = Some (''Company,Ticker,Time,Stock_Price'' @ [CHR 0x0A]) \<and>
      requests s' = [])"
proof -
  have a: "snapshot s_init = None" by (simp add: s_init_def)
  have b: "to_csv_fault env_two_rounds (writes s_init) = None"
    by (simp add: env_two_rounds_def)
  have c: "requests s_init = []" by (simp add: s_init_def)
  from missing_file_created_with_header [OF a b, of 60 900 100 "[]"] a b c
  show ?thesis by auto
qed

text \<open>
  Claim C10. When the snapshot file exists at startup, the lines before the loop attempt
  no write and leave its content as it is; the pass over the companies of the first round
  leaves it as it is, whether it completes or raises; the write that ends the first round
  is the first one, and it replaces the content by the text of the deque.
\<close>

theorem existing_file_kept_until_first_write:
  assumes "snapshot s = Some c"
  shows "\<exists>s0. startup env interval runtime n s = Inr ((), s0) \<and>
     snapshot s0 = Some c \<and> writes s0 = writes s \<and>
     snapshot (outcome_state (for_companies env cs s0)) = Some c \<and>
     writes (outcome_state (for_companies env cs s0)) = writes s \<and>
     (\<forall>u s1. polling_round env cs interval s0 = Inr (u, s1) \<longrightarrow>
        writes s1 = Suc (writes s) \<and>
        snapshot s1 = Some (to_csv_text (str_price env)
                             (DataFrame_records (items (records_deque s1)))))"
proof -
  from startup_present [OF assms, of env interval runtime n] obtain s0 where
    st: "startup env interval runtime n s = Inr ((), s0)" and
    e: "snapshot s0 = Some c" "writes s0 = writes s"
    by blast
  have "\<forall>u s1. polling_round env cs interval s0 = Inr (u, s1) \<longrightarrow>
        writes s1 = Suc (writes s) \<and>
        snapshot s1 = Some (to_csv_text (str_price env)
                             (DataFrame_records (items (records_deque s1))))"
  proof (intro allI impI)
    fix u s1
    assume "polling_round env cs interval s0 = Inr (u, s1)"
    from polling_round_Inr [OF this] e
    show "writes s1 = Suc (writes s) \<and>
        snapshot s1 = Some (to_csv_text (str_price env)
                             (DataFrame_records (items (records_deque s1))))"
      by auto
  qed
  with st e for_companies_snapshot [of env cs s0] show ?thesis by auto
qed

theorem existing_file_kept_until_first_write_witness:
  "snapshot s_old_file = Some ''stale'' \<and>
   (\<exists>s0 s1. startup env_two_rounds 60 900 100 s_old_file = Inr ((), s0) \<and>
      snapshot s0 = Some ''stale'' \<and>
      snapshot (outcome_state (for_companies env_two_rounds [''Synopys''] s0)) = Some ''stale'' \<and>
      polling_round env_two_rounds [''Synopys''] 60 s0 = Inr ((), s1) \<and>
      snapshot s1 = Some (to_csv_text (str_price env_two_rounds)
                             (DataFrame_records (items (records_deque s1)))))"
proof -
  have a: "snapshot s_old_file = Some ''stale''" by (simp add: s_old_file_def)
  from existing_file_kept_until_first_write [OF a, where env = env_two_rounds
      and interval = 60 and runtime = 900 and n = 100 and cs = "[''Synopys'']"]
  obtain s0 where
    s0: "startup env_two_rounds 60 900 100 s_old_file = Inr ((), s0)"
      "snapshot s0 = Some ''stale''"
      "snapshot (outcome_state (for_companies env_two_rounds [''Synopys''] s0)) = Some ''stale''"
    and w: "\<forall>u s1. polling_round env_two_rounds [''Synopys''] 60 s0 = Inr (u, s1) \<longrightarrow>
        writes s1 = Suc (writes s_old_file) \<and>
        snapshot s1 = Some (to_csv_text (str_price env_two_rounds)
                             (DataFrame_records (items (records_deque s1))))"
    by blast
  have "list_all (\<lambda>c. \<not> isl (lookup_ticker c)) [''Synopys'']"
    by (simp add: lookup_ticker_def stocks_dictionary_def)
  from polling_round_ok [OF env_two_rounds_ok this, of 60 s0]
  obtain s1 where run: "polling_round env_two_rounds [''Synopys''] 60 s0 = Inr ((), s1)"
    by blast
  with w have "snapshot s1 = Some (to_csv_text (str_price env_two_rounds)
                             (DataFrame_records (items (records_deque s1))))"
    by blast
  with a s0 run show ?thesis by blast
qed

text \<open>
  Claim C9. The text written depends on the deque alone: two successful writes of equal
  deques give equal files, whatever the clock, the file before, the requests made and the
  number of earlier writes (the environments need only render prices alike); and writing
  again right after a write, with no append in between, leaves the same file.
\<close>

theorem serialization_deterministic:
  "(str_price env1 = str_price env2 \<and> records_deque s1 = records_deque s2 \<and>
    to_csv env1 (DataFrame_records (items (records_deque s1))) s1 = Inr (u1, s1') \<and>
    to_csv env2 (DataFrame_records (items (records_deque s2))) s2 = Inr (u2, s2') \<longrightarrow>
      snapshot s1' = snapshot s2') \<and>
   (to_csv env (DataFrame_records (items (records_deque s))) s = Inr (u, s') \<and>
    to_csv env (DataFrame_records (items (records_deque s'))) s' = Inr (u', s'') \<longrightarrow>
      snapshot s'' = snapshot s' \<and> records_deque s'' = records_deque s)"
proof (intro conjI impI)
  assume a: "str_price env1 = str_price env2 \<and> records_deque s1 = records_deque s2 \<and>
    to_csv env1 (DataFrame_records (items (records_deque s1))) s1 = Inr (u1, s1') \<and>
    to_csv env2 (DataFrame_records (items (records_deque s2))) s2 = Inr (u2, s2')"
  then have "to_csv env1 (DataFrame_records (items (records_deque s1))) s1 = Inr (u1, s1')"
    "to_csv env2 (DataFrame_records (items (records_deque s2))) s2 = Inr (u2, s2')"
    by blast+
  from to_csv_Inr [OF this(1)] to_csv_Inr [OF this(2)] a
  show "snapshot s1' = snapshot s2'" by simp
next
  assume b: "to_csv env (DataFrame_records (items (records_deque s))) s = Inr (u, s') \<and>
    to_csv env (DataFrame_records (items (records_deque s'))) s' = Inr (u', s'')"
  then have "to_csv env (DataFrame_records (items (records_deque s))) s = Inr (u, s')"
    "to_csv env (DataFrame_records (items (records_deque s'))) s' = Inr (u', s'')"
    by blast+
  from to_csv_Inr [OF this(1)] to_csv_Inr [OF this(2)]
  have both: "snapshot s'' = snapshot s' \<and> records_deque s'' = records_deque s" by simp
  from both show "snapshot s'' = snapshot s'" by simp
  from both show "records_deque s'' = records_deque s" by simp
qed

theorem serialization_deterministic_witness:
  "str_price env_two_rounds = str_price env_later \<and>
   records_deque s_one_reading = records_deque s_later \<and>
   to_csv env_two_rounds (DataFrame_records (items (records_deque s_one_reading))) s_one_reading =
     Inr ((), outcome_state (to_csv env_two_rounds
        (DataFrame_records (items (records_deque s_one_reading))) s_one_reading)) \<and>
   to_csv env_later (DataFrame_records (items (records_deque s_later))) s_later =
     Inr ((), outcome_state (to_csv env_later
        (DataFrame_records (items (records_deque s_later))) s_later)) \<and>
   snapshot (outcome_state (to_csv env_two_rounds
        (DataFrame_records (items (records_deque s_one_reading))) s_one_reading)) =
   snapshot (outcome_state (to_csv env_later
        (DataFrame_records (items (records_deque s_later))) s_later))"
proof -
  have a: "str_price env_two_rounds = str_price env_later"
    by (simp add: env_later_def)
  have b: "records_deque s_one_reading = records_deque s_later"
    by (simp add: s_later_def)
  have c: "to_csv env_two_rounds (DataFrame_records (items (records_deque s_one_reading)))
       s_one_reading =
     Inr ((), outcome_state (to_csv env_two_rounds
        (DataFrame_records (items (records_deque s_one_reading))) s_one_reading))"
    by (rule to_csv_returns) (simp add: env_two_rounds_def)
  have d: "to_csv env_later (DataFrame_records (items (records_deque s_later))) s_later =
     Inr ((), outcome_state (to_csv env_later
        (DataFrame_records (items (records_deque s_later))) s_later))"
    by (rule to_csv_returns) (simp add: env_later_def env_two_rounds_def)
  from a b c d serialization_deterministic [of env_two_rounds env_later s_one_reading s_later
    "()" "outcome_state (to_csv env_two_rounds
        (DataFrame_records (items (records_deque s_one_reading))) s_one_reading)"
    "()" "outcome_state (to_csv env_later
        (DataFrame_records (items (records_deque s_later))) s_later)"]
  show ?thesis by blast
qed

section \<open>The whole run\<close>

lemma update_csv_stock_raised:
  assumes "try_body env cs interval runtime n (logger_info ''Calling update_csv_stock'' s)
     = Inl (e, s1)"
  shows "update_csv_stock_with env cs interval runtime n s = logger_error e s1"
    and "errors_logged (update_csv_stock_with env cs interval runtime n s) = errors_logged s @ [e]"
    and "\<exists>k. k \<le> n \<and> (0 < n \<longrightarrow> k < n) \<and> sleeps s1 = sleeps s @ replicate k interval"
proof -
  show u: "update_csv_stock_with env cs interval runtime n s = logger_error e s1"
    using assms by (simp add: update_csv_stock_with_def)
  from try_body_Inl [OF assms] have
    k: "\<exists>k. k \<le> n \<and> (0 < n \<longrightarrow> k < n) \<and>
        sleeps s1 = sleeps (logger_info ''Calling update_csv_stock'' s) @ replicate k interval"
    and e: "errors_logged s1 = errors_logged (logger_info ''Calling update_csv_stock'' s)"
    by blast+
  from e show "errors_logged (update_csv_stock_with env cs interval runtime n s) =
      errors_logged s @ [e]"
    by (simp add: u)
  from k show "\<exists>k. k \<le> n \<and> (0 < n \<longrightarrow> k < n) \<and> sleeps s1 = sleeps s @ replicate k interval"
    by (simp add: logger_info_def)
qed

lemma update_csv_stock_returned:
  assumes "try_body env cs interval runtime n (logger_info ''Calling update_csv_stock'' s)
     = Inr (u, s1)"
  shows "update_csv_stock_with env cs interval runtime n s = s1"
    and "errors_logged s1 = errors_logged s"
    and "sleeps s1 = sleeps s @ replicate n interval"
    and "requests s1 = requests s @ concat (replicate n (round_requests cs))"
proof -
  show "update_csv_stock_with env cs interval runtime n s = s1"
    using assms by (simp add: update_csv_stock_with_def)
  from try_body_Inr [OF assms]
  show "errors_logged s1 = errors_logged s"
    and "sleeps s1 = sleeps s @ replicate n interval"
    and "requests s1 = requests s @ concat (replicate n (round_requests cs))"
    by (simp_all add: logger_info_def errors_logged_def)
qed

lemma quiet_run:
  assumes "quotes_ok env" "writes_ok env"
  shows "errors_logged (update_csv_stock env s) = errors_logged s"
proof -
  from try_body_ok [OF assms companies_known, of update_interval total_runtime num_updates
      "logger_info ''Calling update_csv_stock'' s"]
  obtain s' where r: "try_body env companies update_interval total_runtime num_updates
      (logger_info ''Calling update_csv_stock'' s) = Inr ((), s')" by blast
  from update_csv_stock_returned [OF r] show ?thesis
    by (simp add: update_csv_stock_def)
qed

lemma disk_full_run:
  "try_body env_disk_full companies update_interval total_runtime num_updates
       (logger_info ''Calling update_csv_stock'' s_init) =
     Inl (OSError ''No space left on device'',
       outcome_state (try_body env_disk_full companies update_interval total_runtime num_updates
         (logger_info ''Calling update_csv_stock'' s_init)))"
  by (simp add: try_body_def startup_def Let_def init_csv_file_def to_csv_def logger_info_def
      s_init_def env_disk_full_def)

text \<open>
  Claim C8. The run always ends: it sleeps at most 100 times, once per completed round,
  and 100 is also the capacity of its deque. When no exception is logged it has completed
  exactly 100 rounds, each followed by a sleep of 60 seconds and each issuing the requests
  of one round. When the block under \<^verbatim>\<open>try\<close> raises, the run ends in the state of the raise
  with the exception logged once, after fewer than 100 completed rounds.
\<close>

theorem polling_loop_terminates:
  "length (sleeps (update_csv_stock env s)) \<le> length (sleeps s) + 100 \<and>
   maxlen (records_deque (update_csv_stock env s)) = 100 \<and>
   (errors_logged (update_csv_stock env s) = errors_logged s \<longrightarrow>
      sleeps (update_csv_stock env s) = sleeps s @ replicate 100 60 \<and>
      requests (update_csv_stock env s) =
        requests s @ concat (replicate 100 (round_requests companies))) \<and>
   (try_body env companies update_interval total_runtime num_updates
        (logger_info ''Calling update_csv_stock'' s) = Inl (e, s1) \<longrightarrow>
      update_csv_stock env s = logger_error e s1 \<and>
      errors_logged (update_csv_stock env s) = errors_logged s @ [e] \<and>
      (\<exists>k<100. sleeps (update_csv_stock env s) = sleeps s @ replicate k 60))"
proof -
  let ?body = "try_body env companies update_interval total_runtime num_updates
        (logger_info ''Calling update_csv_stock'' s)"
  have on_raise: "update_csv_stock env s = logger_error e' s' \<and>
      errors_logged (update_csv_stock env s) = errors_logged s @ [e'] \<and>
      (\<exists>k<100. sleeps (update_csv_stock env s) = sleeps s @ replicate k 60)"
    if r: "?body = Inl (e', s')" for e' s'
  proof -
    from update_csv_stock_raised [OF r] obtain k where
      u: "update_csv_stock env s = logger_error e' s'"
         "errors_logged (update_csv_stock env s) = errors_logged s @ [e']"
      and k: "k < 100" "sleeps s' = sleeps s @ replicate k 60"
      by (auto simp add: update_csv_stock_def num_updates_def update_interval_def)
    from k u(1) have "sleeps (update_csv_stock env s) = sleeps s @ replicate k 60"
      by (simp add: logger_error_def)
    with k(1) u show ?thesis by blast
  qed
  have on_return: "update_csv_stock env s = s' \<and> errors_logged s' = errors_logged s \<and>
      sleeps s' = sleeps s @ replicate 100 60 \<and>
      requests s' = requests s @ concat (replicate 100 (round_requests companies))"
    if r: "?body = Inr (u, s')" for u s'
    using update_csv_stock_returned [OF r]
    by (simp add: update_csv_stock_def num_updates_def update_interval_def)
  have m: "maxlen (records_deque (update_csv_stock env s)) = 100"
    using try_body_maxlen [of env companies update_interval total_runtime num_updates
        "logger_info ''Calling update_csv_stock'' s"]
    by (simp add: update_csv_stock_def update_csv_stock_with_deque num_updates_def)
  have len: "length (sleeps (update_csv_stock env s)) \<le> length (sleeps s) + 100"
  proof (cases ?body rule: result_cases)
    case (raised e' s')
    from on_raise [OF this] show ?thesis by auto
  next
    case (returned u s')
    from on_return [OF this] show ?thesis by auto
  qed
  have quiet: "errors_logged (update_csv_stock env s) = errors_logged s \<longrightarrow>
      sleeps (update_csv_stock env s) = sleeps s @ replicate 100 60 \<and>
      requests (update_csv_stock env s) =
        requests s @ concat (replicate 100 (round_requests companies))"
  proof (cases ?body rule: result_cases)
    case (raised e' s')
    from on_raise [OF this] show ?thesis by auto
  next
    case (returned u s')
    from on_return [OF this] show ?thesis by auto
  qed
  from len m quiet on_raise [of e s1] show ?thesis by blast
qed

theorem polling_loop_terminates_witness:
  "errors_logged (update_csv_stock env_two_rounds s_init) = errors_logged s_init \<and>
   sleeps (update_csv_stock env_two_rounds s_init) = sleeps s_init @ replicate 100 60 \<and>
   try_body env_disk_full companies update_interval total_runtime num_updates
       (logger_info ''Calling update_csv_stock'' s_init) =
     Inl (OSError ''No space left on device'',
       outcome_state (try_body env_disk_full companies update_interval total_runtime num_updates
         (logger_info ''Calling update_csv_stock'' s_init))) \<and>
   errors_logged (update_csv_stock env_disk_full s_init) =
     errors_logged s_init @ [OSError ''No space left on device'']"
proof -
  have a: "errors_logged (update_csv_stock env_two_rounds s_init) = errors_logged s_init"
    using env_two_rounds_ok by (rule quiet_run)
  from a polling_loop_terminates [of env_two_rounds s_init]
  have b: "sleeps (update_csv_stock env_two_rounds s_init) = sleeps s_init @ replicate 100 60"
    by blast
  from disk_full_run polling_loop_terminates [of env_disk_full s_init
    "OSError ''No space left on device''"
    "outcome_state (try_body env_disk_full companies update_interval total_runtime num_updates
         (logger_info ''Calling update_csv_stock'' s_init))"]
  have c: "errors_logged (update_csv_stock env_disk_full s_init) =
     errors_logged s_init @ [OSError ''No space left on device'']"
    by blast
  from a b c disk_full_run show ?thesis by blast
qed

section \<open>Exceptions and the guard\<close>










section \<open>The header of the snapshot\<close>

text \<open>
  Under an environment in which every fetch and every write succeeds, the file the
  program leaves behind starts with the line \<^verbatim>\<open>Company,Ticker,Time,Price\<close>; and the file
  after a first round for one company is that line and the company's row.
\<close>

lemma final_snapshot_header:
  assumes "quotes_ok env" and "writes_ok env"
  shows "\<exists>rows. snapshot (update_csv_stock env s) =
     Some (''Company,Ticker,Time,Price'' @ [CHR 0x0A] @ rows)"
proof -
  let ?s = "logger_info ''Calling update_csv_stock'' s"
  from try_body_ok [OF assms companies_known, of update_interval total_runtime num_updates ?s]
  obtain s' where body: "try_body env companies update_interval total_runtime num_updates ?s
      = Inr ((), s')" by blast
  then obtain s0 where
    st: "startup env update_interval total_runtime num_updates ?s = Inr ((), s0)" and
    lp: "for_rounds env companies update_interval (Suc 99) s0 = Inr ((), s')"
    by (cases "startup env update_interval total_runtime num_updates ?s" rule: result_cases)
      (auto simp add: try_body_def num_updates_def)
  from startup_frame [of env update_interval total_runtime num_updates ?s] st
  have cap: "maxlen (records_deque s0) = 100"
    by (simp add: new_deque_def num_updates_def)
  from for_rounds_last [OF lp] cap obtain s1 where
    r: "polling_round env companies update_interval s1 = Inr ((), s')" and
    m: "0 < maxlen (records_deque s1)"
    by auto
  have "companies \<noteq> []" by (simp add: companies_def)
  from polling_round_snapshot [OF r this m]
  have "snapshot s' = Some (header_Price @
       concat (map (csv_row (str_price env) (map Price (items (records_deque s'))))
                 (items (records_deque s'))))"
    by simp
  moreover from body have "update_csv_stock env s = s'"
    by (simp add: update_csv_stock_def update_csv_stock_with_def)
  ultimately show ?thesis
    by (simp add: header_Price_def)
qed

lemma first_round_file_text:
  "snapshot (outcome_state (polling_round env_two_rounds [''Synopys''] 60 s_three)) =
     Some (''Company,Ticker,Time,Price'' @ [CHR 0x0A] @ ''Synopys,SNPS,t1,100'' @ [CHR 0x0A])"
  by code_simp

text \<open>
  Claim C1. A round that completes replaces the file by the text of the deque: one header
  line, then one line per reading the deque holds, in deque order. The header line is made
  of the keys of \<^verbatim>\<open>new_record\<close>, so it is \<^verbatim>\<open>Company,Ticker,Time,Price\<close>; it is not the line
  \<^verbatim>\<open>Company,Ticker,Time,Stock_Price\<close> that \<^verbatim>\<open>init_csv_file\<close> writes.
\<close>

theorem round_snapshot_header:
  assumes "polling_round env cs interval s = Inr (u, s')"
    and "cs \<noteq> []" and "0 < maxlen (records_deque s)"
  shows "snapshot s' =
       Some (''Company,Ticker,Time,Price'' @ [CHR 0x0A] @
         concat (map (csv_row (str_price env) (map Price (items (records_deque s'))))
                   (items (records_deque s')))) \<and>
     snapshot s' \<noteq>
       Some (''Company,Ticker,Time,Stock_Price'' @ [CHR 0x0A] @
         concat (map (csv_row (str_price env) (map Price (items (records_deque s'))))
                   (items (records_deque s'))))"
  using polling_round_snapshot [OF assms] by (simp add: header_Price_def)

theorem round_snapshot_header_witness:
  "\<exists>s'. polling_round env_two_rounds [''Synopys''] 60 s_three = Inr ((), s') \<and>
     [''Synopys''] \<noteq> [] \<and> 0 < maxlen (records_deque s_three) \<and>
     snapshot s' =
       Some (''Company,Ticker,Time,Price'' @ [CHR 0x0A] @
         concat (map (csv_row (str_price env_two_rounds) (map Price (items (records_deque s'))))
                   (items (records_deque s'))))"
proof -
  have "list_all (\<lambda>c. \<not> isl (lookup_ticker c)) [''Synopys'']"
    by (simp add: lookup_ticker_def stocks_dictionary_def)
  from polling_round_ok [OF env_two_rounds_ok this, of 60 s_three]
  obtain s' where run: "polling_round env_two_rounds [''Synopys''] 60 s_three = Inr ((), s')"
    by blast
  have ne: "[''Synopys''] \<noteq> []" by simp
  have cap: "0 < maxlen (records_deque s_three)"
    by (simp add: s_three_def new_deque_def)
  from round_snapshot_header [OF run ne cap] run ne cap show ?thesis by blast
qed

end
